theory Spec2Isabelle
  imports Main "HOL-Library.AList"
begin

section \<open>Strings and character classes\<close>

text \<open>
  A Python \<open>str\<close> is modelled as a \<open>string\<close>; a \<open>char\<close> stands for the code point of
  the same number (0 to 255), so the model covers the strings of these code points.
  The three character classes below are the ones
  \<open>str.strip\<close> and the \<open>re\<close> module use on that range: \<open>isspace\<close> is what \<open>strip()\<close>
  removes and what \<open>\s\<close> matches, \<open>word_char\<close> is \<open>\w\<close> (alphanumeric or underscore).
\<close>

definition isspace :: "char \<Rightarrow> bool" where
  "isspace c = (let n = (of_char c :: nat) in
     (9 \<le> n \<and> n \<le> 13) \<or> (28 \<le> n \<and> n \<le> 32) \<or> n = 133 \<or> n = 160)"

definition word_char :: "char \<Rightarrow> bool" where
  "word_char c = (let n = (of_char c :: nat) in
     (48 \<le> n \<and> n \<le> 57) \<or> (65 \<le> n \<and> n \<le> 90) \<or> n = 95 \<or> (97 \<le> n \<and> n \<le> 122) \<or>
     n = 170 \<or> n = 178 \<or> n = 179 \<or> n = 181 \<or> n = 185 \<or> n = 186 \<or>
     (188 \<le> n \<and> n \<le> 190) \<or> (192 \<le> n \<and> n \<le> 214) \<or> (216 \<le> n \<and> n \<le> 246) \<or>
     (248 \<le> n \<and> n \<le> 255))"

text \<open>\<open>s.strip()\<close>: leading and trailing whitespace removed.\<close>

definition strip :: "string \<Rightarrow> string" where
  "strip s = rev (dropWhile isspace (rev (dropWhile isspace s)))"

text \<open>
  \<open>s.split(sep, 1)\<close> for a one-character separator that occurs in \<open>s\<close>: the text before the
  first occurrence and the text after it.
\<close>

definition split_once :: "char \<Rightarrow> string \<Rightarrow> string \<times> string" where
  "split_once sep s = (takeWhile (\<lambda>c. c \<noteq> sep) s, tl (dropWhile (\<lambda>c. c \<noteq> sep) s))"

section \<open>The dependency-spec splitter (\<open>dependency_tools.split_dependency\<close>)\<close>

text \<open>
  The regular expression of \<open>split_dependency\<close> is
  \<^verbatim>\<open>([\w\-\.]+)(?:\[[^\]]+\])?\s*(==|>=|<=|>|<|~=)?\s*([\d\w\.\*]+)?\<close>
  applied with \<open>re.match\<close> (anchored at the start only).  Everything after the first
  group may match the empty string, so the engine never backtracks: every greedy
  quantifier keeps its longest match and every optional part is taken when it matches.
  The matcher is therefore a left-to-right scan, written out below.
\<close>

definition name_char :: "char \<Rightarrow> bool" where
  "name_char c = (word_char c \<or> c = CHR ''-'' \<or> c = CHR ''.'')"

definition version_char :: "char \<Rightarrow> bool" where
  "version_char c = (word_char c \<or> c = CHR ''.'' \<or> c = CHR ''*'')"

text \<open>\<^verbatim>\<open>(?:\[[^\]]+\])?\<close>: a bracketed extras group is skipped when one is there.\<close>

definition skip_extras :: "string \<Rightarrow> string" where
  "skip_extras s =
     (case s of
        [] \<Rightarrow> s
      | c # r \<Rightarrow>
          if c = CHR ''['' \<and> takeWhile (\<lambda>x. x \<noteq> CHR '']'') r \<noteq> [] \<and> dropWhile (\<lambda>x. x \<noteq> CHR '']'') r \<noteq> []
          then tl (dropWhile (\<lambda>x. x \<noteq> CHR '']'') r)
          else s)"

text \<open>\<^verbatim>\<open>(==|>=|<=|>|<|~=)?\<close>: the alternatives are tried in this order.\<close>

definition operators :: "string list" where
  "operators = [''=='', ''>='', ''<='', ''>'', ''<'', ''~='']"

definition match_operator :: "string \<Rightarrow> string option" where
  "match_operator s = find (\<lambda>op. take (length op) s = op) operators"

text \<open>
  The result of \<open>re.match\<close>: \<open>None\<close> when the first group finds no character, else the
  three groups (an unmatched optional group is \<open>None\<close>).
\<close>

definition match_spec :: "string \<Rightarrow> (string \<times> string option \<times> string option) option" where
  "match_spec dep =
     (let package = takeWhile name_char dep in
      if package = [] then None
      else
        let r1 = dropWhile isspace (skip_extras (dropWhile name_char dep));
            op = match_operator r1;
            r2 = dropWhile isspace (drop (length (case op of None \<Rightarrow> [] | Some x \<Rightarrow> x)) r1);
            num = takeWhile version_char r2
        in Some (package, op, if num = [] then None else Some num))"

text \<open>\<open>x or ""\<close> for a regex group, and \<open>s or "latest"\<close>.\<close>

definition group_or_empty :: "string option \<Rightarrow> string" where
  "group_or_empty g = (case g of None \<Rightarrow> [] | Some s \<Rightarrow> s)"

definition or_latest :: "string \<Rightarrow> string" where
  "or_latest s = (if s = [] then ''latest'' else s)"

text \<open>The first two steps of \<open>split_dependency\<close>: trim, then cut at the first \<open>;\<close>.\<close>

definition strip_markers :: "string \<Rightarrow> string" where
  "strip_markers dep =
     (let d = strip dep in
      if CHR '';'' \<in> set d then strip (fst (split_once CHR '';'' d)) else d)"

definition split_dependency :: "string \<Rightarrow> string \<times> string" where
  "split_dependency dep0 =
     (let dep = strip_markers dep0 in
      if CHR ''@'' \<in> set dep then
        (let (package, version) = split_once CHR ''@'' dep
         in (strip package, ''@ '' @ strip version))
      else
        (case match_spec dep of
           Some (package, version_operator, version_number) \<Rightarrow>
             (package, or_latest (strip (group_or_empty version_operator @ group_or_empty version_number)))
         | None \<Rightarrow> (dep, ''latest'')))"

text \<open>
  A version constraint as the regular expression produces it: an optional operator
  followed by characters of the version class, not both empty.
\<close>

definition is_constraint :: "string \<Rightarrow> bool" where
  "is_constraint v =
     (v \<noteq> [] \<and>
      list_ex (\<lambda>op. take (length op) v = op \<and> list_all version_char (drop (length op) v))
        ([] # operators))"

section \<open>The source import scanner (\<open>analyze_python_ast\<close>)\<close>

subsection \<open>Syntax trees\<close>

text \<open>
  \<open>ImportUsageVisitor\<close> overrides the visit of four node classes; every other node goes
  through \<open>ast.NodeVisitor.generic_visit\<close>, which visits the node's children in the order
  of the class's \<open>_fields\<close>.  A tree is therefore modelled with those four classes, \<open>Name\<close>
  (which the name computation reads), \<open>Constant\<close> (for which \<open>NodeVisitor\<close> has a method of its
  own in CPython 3.8 to 3.13, \<open>visit_Constant\<close>, that calls \<open>generic_visit\<close>) and one constructor \<open>Other\<close> for any
  other node, carrying its child nodes in field order.  An \<open>ast.alias\<close> is its \<open>name\<close> and
  \<open>asname\<close>; a \<open>Call\<close> carries \<open>lineno\<close>, \<open>func\<close>, \<open>args\<close> and \<open>keywords\<close> (each keyword a node
  whose child is its value); \<open>lineno\<close> is a Python integer.  The context node of a \<open>Name\<close>
  or an \<open>Attribute\<close> is not stored: it is a node without children.
\<close>

type_synonym import_name = "string \<times> string option"

datatype node =
    Import int "import_name list"
  | ImportFrom int "string option" "import_name list"
  | Call int node "node list" "node list"
  | Attribute int node string
  | Name string
  | Constant
  | Other "node list"

text \<open>The message of an exception, \<open>str(e)\<close>.\<close>

type_synonym message = string

text \<open>
  The walk is recursive, and the interpreter raises \<open>RecursionError\<close> when a call would
  exceed its recursion limit; \<open>analyze_repo\<close> catches it like any other exception.  The
  functions of the walk therefore take the number of frames the interpreter can still
  push: every call of a Python function takes one, and so does every resumption of the
  generator \<open>ast.iter_fields\<close> that \<open>generic_visit\<close> iterates.  The message is the one of
  CPython 3.11.
\<close>

definition recursion_error :: message where
  "recursion_error = ''maximum recursion depth exceeded''"

text \<open>\<open>xs[i]\<close> on a Python list: a negative index counts from the end.\<close>

definition py_index :: "'a list \<Rightarrow> int \<Rightarrow> message + 'a" where
  "py_index xs i =
     (let n = int (length xs); j = (if i < 0 then i + n else i)
      in if 0 \<le> j \<and> j < n then Inr (xs ! nat j) else Inl ''list index out of range'')"

subsection \<open>The visitor\<close>

record import_entry =
  imp_module :: string
  imp_alias :: string
  imp_lineno :: int
  imp_code :: string

record visitor =
  import_entries :: "import_entry list"
  usage :: "(string \<times> int \<times> string) list"

text \<open>
  The fields \<open>import_entries\<close> and \<open>usage\<close> are \<open>self.imports\<close> and \<open>self.usage\<close>.
  \<open>alias.asname or alias.name\<close>:
\<close>

definition asname_or_name :: "import_name \<Rightarrow> string" where
  "asname_or_name a = (case snd a of None \<Rightarrow> fst a | Some s \<Rightarrow> if s = [] then fst a else s)"

text \<open>
  The loop of \<open>visit_Import\<close> and \<open>visit_ImportFrom\<close> over \<open>node.names\<close>; \<open>full\<close> gives the
  \<open>module\<close> entry for a name.
\<close>

fun import_loop :: "(string \<Rightarrow> string) \<Rightarrow> string list \<Rightarrow> int \<Rightarrow> import_name list \<Rightarrow> visitor \<Rightarrow> message + visitor" where
  "import_loop full source_lines lineno [] v = Inr v"
| "import_loop full source_lines lineno (a # names) v =
     (case py_index source_lines (lineno - 1) of
        Inl e \<Rightarrow> Inl e
      | Inr code_line \<Rightarrow>
          import_loop full source_lines lineno names
            (v\<lparr>import_entries := import_entries v @
               [\<lparr>imp_module = full (fst a), imp_alias = asname_or_name a,
                 imp_lineno = lineno, imp_code = code_line\<rparr>]\<rparr>))"

text \<open>The f-string \<open>f"{module}.{alias.name}"\<close>; a \<open>module\<close> of \<open>None\<close> prints as \<open>None\<close>.\<close>

definition from_name :: "string option \<Rightarrow> string \<Rightarrow> string" where
  "from_name module name = (case module of None \<Rightarrow> ''None'' | Some m \<Rightarrow> m) @ ''.'' @ name"

fun get_full_attribute_name :: "node \<Rightarrow> string" where
  "get_full_attribute_name (Name ident) = ident"
| "get_full_attribute_name (Attribute lineno v attr) = get_full_attribute_name v @ ''.'' @ attr"
| "get_full_attribute_name _ = []"

text \<open>The number of nested calls of \<open>get_full_attribute_name\<close> on a node.\<close>

fun name_calls :: "node \<Rightarrow> nat" where
  "name_calls (Attribute lineno v attr) = Suc (name_calls v)"
| "name_calls n = 1"

text \<open>The \<open>while isinstance(current, ast.Attribute)\<close> loop of \<open>visit_Attribute\<close>.\<close>

fun attribute_root :: "node \<Rightarrow> node" where
  "attribute_root (Attribute lineno v attr) = attribute_root v"
| "attribute_root n = n"

fun is_Name :: "node \<Rightarrow> bool" where
  "is_Name (Name ident) = True"
| "is_Name _ = False"

text \<open>\<open>self.usage.append((full_name, line, self.source_lines[line - 1]))\<close>.\<close>

definition add_usage :: "string list \<Rightarrow> string \<Rightarrow> int \<Rightarrow> visitor \<Rightarrow> message + visitor" where
  "add_usage source_lines full_name line v =
     (case py_index source_lines (line - 1) of
        Inl e \<Rightarrow> Inl e
      | Inr code_line \<Rightarrow> Inr (v\<lparr>usage := usage v @ [(full_name, line, code_line)]\<rparr>))"

text \<open>
  \<open>visit r source_lines node v\<close> is \<open>self.visit(node)\<close> with \<open>r\<close> frames left, and
  \<open>generic_visit r source_lines children v\<close> is the loop of \<open>generic_visit\<close> over the children of
  a node, each visited with \<open>r\<close> frames left.  The frames are counted as follows.
  \<^item> \<open>visit\<close> takes one frame and the method it dispatches to a second one:
    \<open>visit_Import\<close>, \<open>visit_ImportFrom\<close>, \<open>visit_Call\<close>, \<open>visit_Attribute\<close> or
    \<open>visit_Constant\<close>, and \<open>generic_visit\<close> for every other node.
  \<^item> The four methods of the visitor and \<open>visit_Constant\<close> end with a call of
    \<open>generic_visit\<close>, a third frame.
  \<^item> \<open>generic_visit\<close> resumes the generator, one frame above its own, and visits every
    child with the frames left above its own.
  \<^item> A node without children (an alias, a context) so needs three frames: \<open>visit\<close>,
    \<open>generic_visit\<close> and the generator.
  An exception ends the walk, so only the first one matters: the order of the tests below
  is the order of the code.
\<close>

fun visit :: "nat \<Rightarrow> string list \<Rightarrow> node \<Rightarrow> visitor \<Rightarrow> message + visitor"
  and generic_visit :: "nat \<Rightarrow> string list \<Rightarrow> node list \<Rightarrow> visitor \<Rightarrow> message + visitor" where
  "visit r source_lines (Import lineno names) v =
     (if r < 2 then Inl recursion_error
      else
        (case import_loop (\<lambda>name. name) source_lines lineno names v of
           Inl e \<Rightarrow> Inl e
         | Inr v1 \<Rightarrow> if r < 4 \<or> (names \<noteq> [] \<and> r < 6) then Inl recursion_error else Inr v1))"
| "visit r source_lines (ImportFrom lineno module names) v =
     (if r < 2 then Inl recursion_error
      else
        (case import_loop (from_name module) source_lines lineno names v of
           Inl e \<Rightarrow> Inl e
         | Inr v1 \<Rightarrow> if r < 4 \<or> (names \<noteq> [] \<and> r < 6) then Inl recursion_error else Inr v1))"
| "visit r source_lines (Call lineno func args keywords) v =
     (if r < 2 \<or> r - 2 < name_calls func then Inl recursion_error
      else
        (case (if get_full_attribute_name func \<noteq> []
               then add_usage source_lines (get_full_attribute_name func) lineno v
               else Inr v) of
           Inl e \<Rightarrow> Inl e
         | Inr v1 \<Rightarrow>
             if r < 4 then Inl recursion_error
             else
               (case visit (r - 3) source_lines func v1 of
                  Inl e \<Rightarrow> Inl e
                | Inr v2 \<Rightarrow>
                    (case generic_visit (r - 3) source_lines args v2 of
                       Inl e \<Rightarrow> Inl e
                     | Inr v3 \<Rightarrow> generic_visit (r - 3) source_lines keywords v3))))"
| "visit r source_lines (Attribute lineno val attr) v =
     (if r < 2 then Inl recursion_error
      else
        (case (if is_Name (attribute_root (Attribute lineno val attr))
               then (if r - 2 < name_calls (Attribute lineno val attr) then Inl recursion_error
                     else add_usage source_lines
                            (get_full_attribute_name (Attribute lineno val attr)) lineno v)
               else Inr v) of
           Inl e \<Rightarrow> Inl e
         | Inr v1 \<Rightarrow>
             if r < 4 then Inl recursion_error
             else
               (case visit (r - 3) source_lines val v1 of
                  Inl e \<Rightarrow> Inl e
                | Inr v2 \<Rightarrow> if r < 6 then Inl recursion_error else Inr v2)))"
| "visit r source_lines (Name ident) v = (if r < 5 then Inl recursion_error else Inr v)"
| "visit r source_lines Constant v = (if r < 4 then Inl recursion_error else Inr v)"
| "visit r source_lines (Other children) v =
     (if r < 3 then Inl recursion_error else generic_visit (r - 2) source_lines children v)"
| "generic_visit r source_lines [] v = Inr v"
| "generic_visit r source_lines (child # children) v =
     (case visit r source_lines child v of
        Inl e \<Rightarrow> Inl e
      | Inr v1 \<Rightarrow> generic_visit r source_lines children v1)"

subsection \<open>\<open>analyze_repo\<close>\<close>

text \<open>
  One entry of \<open>results\<close>.  The \<open>type\<close> entry is one of the strings \<open>import\<close>, \<open>usage\<close>,
  \<open>error\<close>.  Each field is the dictionary entry of that name (\<open>r_file\<close> is \<open>file\<close>, and so on).
\<close>

record result =
  r_file :: string
  r_type :: string
  r_symbol :: string
  r_alias :: string
  r_lineno :: int
  r_code :: string

text \<open>
  A Python \<open>dict\<close> keeps its keys in insertion order, and storing under a key that is
  there replaces the value in place: an association list with \<open>AList.update\<close>.
  \<open>import_map = {imp['alias']: imp for imp in visitor.imports}\<close>.
\<close>

definition import_map_of :: "import_entry list \<Rightarrow> (string \<times> import_entry) list" where
  "import_map_of imps = foldl (\<lambda>m imp. AList.update (imp_alias imp) imp m) [] imps"

text \<open>\<open>usage.split('.')[0]\<close>.\<close>

definition root_name :: "string \<Rightarrow> string" where
  "root_name u = takeWhile (\<lambda>c. c \<noteq> CHR ''.'') u"

text \<open>
  \<open>usage_map = {alias: [] for alias in import_map}\<close>, then one step of the loop over
  \<open>visitor.usage\<close>, and the loop.
\<close>

definition usage_map_step ::
  "(string \<times> (string \<times> int \<times> string) list) list \<Rightarrow> string \<times> int \<times> string \<Rightarrow>
   (string \<times> (string \<times> int \<times> string) list) list" where
  "usage_map_step m u =
     (case map_of m (root_name (fst u)) of
        None \<Rightarrow> m
      | Some us \<Rightarrow> AList.update (root_name (fst u)) (us @ [u]) m)"

definition usage_map_of ::
  "(string \<times> import_entry) list \<Rightarrow> (string \<times> int \<times> string) list \<Rightarrow>
   (string \<times> (string \<times> int \<times> string) list) list" where
  "usage_map_of import_map us = foldl usage_map_step (map (\<lambda>(a, imp). (a, [])) import_map) us"

definition import_result :: "string \<Rightarrow> string \<Rightarrow> import_entry \<Rightarrow> result" where
  "import_result file_path a imp =
     \<lparr>r_file = file_path, r_type = ''import'', r_symbol = imp_module imp, r_alias = a,
      r_lineno = imp_lineno imp, r_code = imp_code imp\<rparr>"

definition usage_result :: "string \<Rightarrow> string \<Rightarrow> string \<times> int \<times> string \<Rightarrow> result" where
  "usage_result file_path a u =
     \<lparr>r_file = file_path, r_type = ''usage'', r_symbol = fst u, r_alias = a,
      r_lineno = fst (snd u), r_code = snd (snd u)\<rparr>"

definition error_result :: "string \<Rightarrow> message \<Rightarrow> result" where
  "error_result file_path e =
     \<lparr>r_file = file_path, r_type = ''error'', r_symbol = e, r_alias = [], r_lineno = - 1, r_code = []\<rparr>"

text \<open>
  The emission loop \<open>for alias, imp in import_map.items()\<close>.  The keys of \<open>usage_map\<close> are
  those of \<open>import_map\<close>, so \<open>usage_map[alias]\<close> is always there.
\<close>

definition emit :: "string \<Rightarrow> visitor \<Rightarrow> result list" where
  "emit file_path v =
     (let import_map = import_map_of (import_entries v);
          usage_map = usage_map_of import_map (usage v)
      in concat (map (\<lambda>(a, imp).
           import_result file_path a imp #
           map (usage_result file_path a) (case map_of usage_map a of None \<Rightarrow> [] | Some us \<Rightarrow> us))
         import_map))"

text \<open>
  A file of the walk: its name, its normalised path, what reading and parsing it gave
  (the message of the exception raised, or \<open>source.splitlines()\<close> and the tree of
  \<open>ast.parse\<close>), and the number of frames the interpreter can still push when
  \<open>analyze_repo\<close> calls \<open>visitor.visit(tree)\<close>.
\<close>

record source_file =
  src_name :: string
  src_path :: string
  parsed :: "message + (string list \<times> node)"
  stack :: nat

text \<open>The body of the loop of \<open>analyze_repo\<close> for one file, with its \<open>try\<close> and \<open>except\<close>.\<close>

definition analyze_file :: "source_file \<Rightarrow> result list" where
  "analyze_file f =
     (case parsed f of
        Inl e \<Rightarrow> [error_result (src_path f) e]
      | Inr (source_lines, tree) \<Rightarrow>
          (case visit (stack f) source_lines tree \<lparr>import_entries = [], usage = []\<rparr> of
             Inl e \<Rightarrow> [error_result (src_path f) e]
           | Inr v \<Rightarrow> emit (src_path f) v))"

text \<open>\<open>s.endswith(suffix)\<close>.\<close>

definition endswith :: "string \<Rightarrow> string \<Rightarrow> bool" where
  "endswith s suffix = (length suffix \<le> length s \<and> drop (length s - length suffix) s = suffix)"

text \<open>\<open>analyze_repo\<close> over the files of \<open>os.walk\<close>, in its order.\<close>

definition analyze_repo :: "source_file list \<Rightarrow> result list" where
  "analyze_repo files = concat (map analyze_file (filter (\<lambda>f. endswith (src_name f) ''.py'') files))"

subsection \<open>Notions used to state the scanner's properties\<close>

text \<open>What the visitor holds after a file was read, parsed and walked (or the exception).\<close>

definition visited :: "source_file \<Rightarrow> message + visitor" where
  "visited f =
     (case parsed f of
        Inl e \<Rightarrow> Inl e
      | Inr (source_lines, tree) \<Rightarrow>
          visit (stack f) source_lines tree \<lparr>import_entries = [], usage = []\<rparr>)"

definition visited_usage :: "source_file \<Rightarrow> (string \<times> int \<times> string) list" where
  "visited_usage f = (case visited f of Inl e \<Rightarrow> [] | Inr v \<Rightarrow> usage v)"

definition known_aliases :: "source_file \<Rightarrow> string set" where
  "known_aliases f = (case visited f of Inl e \<Rightarrow> {} | Inr v \<Rightarrow> imp_alias ` set (import_entries v))"

text \<open>One block of the stream: an import record and the usage records of its alias.\<close>

definition block :: "string \<Rightarrow> (string \<times> int \<times> string) list \<Rightarrow> string \<times> import_entry \<Rightarrow> result list" where
  "block path us g =
     import_result path (fst g) (snd g) #
     map (usage_result path (fst g)) (filter (\<lambda>u. root_name (fst u) = fst g) us)"

text \<open>
  The ordering invariant of a file's stream.  A usage record is attributed to alias \<open>a\<close>
  when its \<open>alias\<close> entry is \<open>a\<close>.  \<open>usage_blocks ok seen rs\<close> walks the stream \<open>rs\<close> (with
  \<open>seen\<close> the records already passed): at every import record, the run of usage records
  attributed to its alias that starts right after it must be all the records attributed to
  that alias in the whole stream, and must satisfy \<open>ok\<close>.
\<close>

definition attributed :: "string \<Rightarrow> result \<Rightarrow> bool" where
  "attributed a r = (r_type r = ''usage'' \<and> r_alias r = a)"

fun usage_blocks :: "(string \<Rightarrow> result list \<Rightarrow> bool) \<Rightarrow> result list \<Rightarrow> result list \<Rightarrow> bool" where
  "usage_blocks ok seen [] = True"
| "usage_blocks ok seen (r # rest) =
     ((if r_type r = ''import''
       then takeWhile (attributed (r_alias r)) rest =
              filter (attributed (r_alias r)) (seen @ r # rest) \<and>
            ok (r_alias r) (takeWhile (attributed (r_alias r)) rest)
       else True) \<and>
      usage_blocks ok (seen @ [r]) rest)"

text \<open>The invariant with the usage records of every block in ascending line order.\<close>

definition ordering_invariant :: "result list \<Rightarrow> bool" where
  "ordering_invariant rs = usage_blocks (\<lambda>a us. sorted (map r_lineno us)) [] rs"

text \<open>
  The invariant with the usage records of every block in the order in which the walk of
  the tree recorded them: the block of alias \<open>a\<close> is the visitor's usage list restricted to
  the entries whose root name is \<open>a\<close>.
\<close>

definition visit_order_invariant :: "source_file \<Rightarrow> result list \<Rightarrow> bool" where
  "visit_order_invariant f rs =
     usage_blocks
       (\<lambda>a us. map (\<lambda>r. (r_symbol r, r_lineno r, r_code r)) us =
                filter (\<lambda>u. root_name (fst u) = a) (visited_usage f))
       [] rs"

text \<open>
  The names a tree imports, in the order of the walk: for every name of every import
  statement its \<open>module\<close> entry, the alias it binds and the line of the statement.
\<close>

fun imported_names :: "node \<Rightarrow> (string \<times> string \<times> int) list"
  and imported_names_list :: "node list \<Rightarrow> (string \<times> string \<times> int) list" where
  "imported_names (Import lineno names) = map (\<lambda>a. (fst a, asname_or_name a, lineno)) names"
| "imported_names (ImportFrom lineno module names) =
     map (\<lambda>a. (from_name module (fst a), asname_or_name a, lineno)) names"
| "imported_names (Call lineno func args keywords) =
     imported_names func @ imported_names_list args @ imported_names_list keywords"
| "imported_names (Attribute lineno val attr) = imported_names val"
| "imported_names (Name ident) = []"
| "imported_names Constant = []"
| "imported_names (Other children) = imported_names_list children"
| "imported_names_list [] = []"
| "imported_names_list (child # children) = imported_names child @ imported_names_list children"

text \<open>The text the visitor stores for line \<open>line\<close>, when that line is there.\<close>

definition line_text :: "string list \<Rightarrow> int \<Rightarrow> string" where
  "line_text source_lines line =
     (case py_index source_lines (line - 1) of Inl e \<Rightarrow> [] | Inr code_line \<Rightarrow> code_line)"

definition entry_of :: "string list \<Rightarrow> string \<times> string \<times> int \<Rightarrow> import_entry" where
  "entry_of source_lines n =
     \<lparr>imp_module = fst n, imp_alias = fst (snd n), imp_lineno = snd (snd n),
      imp_code = line_text source_lines (snd (snd n))\<rparr>"

text \<open>
  The usage list of a walk that raises nothing, as a function of the tree: the entry of
  \<open>visit_Call\<close> or \<open>visit_Attribute\<close> for the node, then those of its children.
\<close>

fun recorded :: "string list \<Rightarrow> node \<Rightarrow> (string \<times> int \<times> string) list"
  and recorded_list :: "string list \<Rightarrow> node list \<Rightarrow> (string \<times> int \<times> string) list" where
  "recorded source_lines (Import lineno names) = []"
| "recorded source_lines (ImportFrom lineno module names) = []"
| "recorded source_lines (Call lineno func args keywords) =
     (if get_full_attribute_name func \<noteq> []
      then [(get_full_attribute_name func, lineno, line_text source_lines lineno)] else []) @
     recorded source_lines func @ recorded_list source_lines args @
     recorded_list source_lines keywords"
| "recorded source_lines (Attribute lineno val attr) =
     (if is_Name (attribute_root (Attribute lineno val attr))
      then [(get_full_attribute_name (Attribute lineno val attr), lineno,
             line_text source_lines lineno)] else []) @
     recorded source_lines val"
| "recorded source_lines (Name ident) = []"
| "recorded source_lines Constant = []"
| "recorded source_lines (Other children) = recorded_list source_lines children"
| "recorded_list source_lines [] = []"
| "recorded_list source_lines (child # children) =
     recorded source_lines child @ recorded_list source_lines children"

text \<open>All the nodes of a tree, in the order of the walk.\<close>

fun nodes_of :: "node \<Rightarrow> node list"
  and nodes_of_list :: "node list \<Rightarrow> node list" where
  "nodes_of (Import lineno names) = [Import lineno names]"
| "nodes_of (ImportFrom lineno module names) = [ImportFrom lineno module names]"
| "nodes_of (Call lineno func args keywords) =
     Call lineno func args keywords # nodes_of func @ nodes_of_list args @ nodes_of_list keywords"
| "nodes_of (Attribute lineno val attr) = Attribute lineno val attr # nodes_of val"
| "nodes_of (Name ident) = [Name ident]"
| "nodes_of Constant = [Constant]"
| "nodes_of (Other children) = Other children # nodes_of_list children"
| "nodes_of_list [] = []"
| "nodes_of_list (child # children) = nodes_of child @ nodes_of_list children"

subsection \<open>Example files\<close>

text \<open>
  In the examples the interpreter can push 900 frames when the walk starts, or 1000, the
  whole default recursion limit of CPython.
\<close>

text \<open>
  \<^verbatim>\<open>import pandas as pd\<close>, then the call \<^verbatim>\<open>pd.read_csv('x.csv')\<close>, then the expression
  \<^verbatim>\<open>pd.DataFrame\<close>, on the lines \<open>l1\<close>, \<open>l2\<close>, \<open>l3\<close>.  An expression statement is a node
  whose child is the expression.
\<close>

definition pandas_tree :: "int \<Rightarrow> int \<Rightarrow> int \<Rightarrow> node" where
  "pandas_tree l1 l2 l3 =
     Other [Import l1 [(''pandas'', Some ''pd'')],
            Other [Call l2 (Attribute l2 (Name ''pd'') ''read_csv'') [Constant] []],
            Other [Attribute l3 (Name ''pd'') ''DataFrame'']]"

definition pandas_file :: source_file where
  "pandas_file =
     \<lparr>src_name = ''load.py'', src_path = ''load.py'',
      parsed = Inr ([''import pandas as pd'', ''pd.read_csv(1)'', ''pd.DataFrame''],
                    pandas_tree 1 2 3),
      stack = 900\<rparr>"

text \<open>
  A decorated function:
  \<^verbatim>\<open>import functools\<close> (line 1), \<^verbatim>\<open>@functools.lru_cache\<close> (line 2), \<^verbatim>\<open>def f(x):\<close> (line 3),
  \<^verbatim>\<open>    return functools.reduce\<close> (line 4), and \<^verbatim>\<open>sep = os.sep\<close> (line 5, \<open>os\<close> not imported).
  The fields of \<open>ast.FunctionDef\<close> are \<open>name, args, body, decorator_list, returns,
  type_comment\<close>, so the children of the function node are its arguments, then the
  statements of its body, then its decorators.
\<close>

definition decorated_file :: source_file where
  "decorated_file =
     \<lparr>src_name = ''cache.py'', src_path = ''cache.py'',
      parsed = Inr ([''import functools'', ''@functools.lru_cache'', ''def f(x):'',
                     ''    return functools.reduce'', ''sep = os.sep''],
                    Other [Import 1 [(''functools'', None)],
                           Other [Other [Other []],
                                  Other [Attribute 4 (Name ''functools'') ''reduce''],
                                  Attribute 2 (Name ''functools'') ''lru_cache''],
                           Other [Name ''sep'', Attribute 5 (Name ''os'') ''sep'']]),
      stack = 900\<rparr>"

text \<open>Two import statements that bind the same alias: \<^verbatim>\<open>import json\<close>, \<^verbatim>\<open>import simplejson as json\<close>.\<close>

definition rebound_file :: source_file where
  "rebound_file =
     \<lparr>src_name = ''compat.py'', src_path = ''compat.py'',
      parsed = Inr ([''import json'', ''import simplejson as json''],
                    Other [Import 1 [(''json'', None)], Import 2 [(''simplejson'', Some ''json'')]]),
      stack = 900\<rparr>"

text \<open>Two import statements with different aliases: \<^verbatim>\<open>import os\<close>, \<^verbatim>\<open>from sys import path as p\<close>.\<close>

definition imports_only_file :: source_file where
  "imports_only_file =
     \<lparr>src_name = ''setup.py'', src_path = ''setup.py'',
      parsed = Inr ([''import os'', ''from sys import path as p''],
                    Other [Import 1 [(''os'', None)], ImportFrom 2 (Some ''sys'') [(''path'', Some ''p'')]]),
      stack = 900\<rparr>"

text \<open>
  A long sum: the tree of \<^verbatim>\<open>1 + 1 + ... + 1\<close> with \<open>n\<close> additions.  The parser builds it without
  recursion, nested to the left: a \<open>BinOp\<close> has the children \<open>left\<close>, \<open>op\<close> and \<open>right\<close>.
\<close>

fun sum_of :: "nat \<Rightarrow> node" where
  "sum_of 0 = Constant"
| "sum_of (Suc n) = Other [sum_of n, Other [], Constant]"

text \<open>
  \<^verbatim>\<open>import os\<close> (line 1), the call \<^verbatim>\<open>os.path.join(1)\<close> (line 2) and the assignment of a sum of
  601 terms to \<open>total\<close> (line 3), run with the whole default recursion limit.
\<close>

definition long_sum_tree :: node where
  "long_sum_tree =
     Other [Import 1 [(''os'', None)],
            Other [Call 2 (Attribute 2 (Attribute 2 (Name ''os'') ''path'') ''join'') [Constant] []],
            Other [Name ''total'', sum_of 600]]"

definition long_sum_line :: string where
  "long_sum_line = ''total = 1'' @ concat (replicate 600 '' + 1'')"

definition long_sum_file :: source_file where
  "long_sum_file =
     \<lparr>src_name = ''totals.py'', src_path = ''totals.py'',
      parsed = Inr ([''import os'', ''os.path.join(1)'', long_sum_line], long_sum_tree),
      stack = 1000\<rparr>"

section \<open>The manifest extractor (\<open>dependency_tools\<close>)\<close>

text \<open>A row of the result: source path, package, version.\<close>

type_synonym dependency = "string \<times> string \<times> string"

subsection \<open>What the extractors read\<close>

text \<open>
  The value \<open>yaml.safe_load\<close> returns.  The code tells apart strings, lists and mappings;
  every other value (null, a boolean, a number, a date) is a \<open>YScalar\<close>: it is none of the
  three, has no \<open>strip\<close> and cannot be iterated.  A mapping is the list of its items; its keys are distinct.
\<close>

datatype yaml = YScalar | YStr string | YList "yaml list" | YDict "(yaml \<times> yaml) list"

text \<open>
  \<open>for x in v\<close>: the elements of a list, the characters of a string, the keys of a
  mapping; \<open>None\<close> is the \<open>TypeError\<close> of a value that is not iterable.
\<close>

fun iterate :: "yaml \<Rightarrow> yaml list option" where
  "iterate (YList xs) = Some xs"
| "iterate (YStr s) = Some (map (\<lambda>c. YStr [c]) s)"
| "iterate (YDict kvs) = Some (map fst kvs)"
| "iterate YScalar = None"

text \<open>
  The project tree and the libraries the extractors call.  \<open>os_walk\<close> lists every file under
  the project path as \<open>os.walk\<close> yields them, with the name and the joined path.  Of a reader
  or parser that can raise, the result is an \<open>option\<close>, \<open>None\<close> being the exception:
  \<open>yaml_safe_load\<close> is \<open>open\<close> and \<open>yaml.safe_load\<close>; \<open>toml_loads\<close> says whether \<open>open\<close> and
  \<open>toml.load\<close> succeed; \<open>is_builtin\<close> is \<open>is_builtin_module\<close>, whose \<open>importlib\<close> probe can raise.
  \<open>read_lines\<close> is \<open>open\<close> and the iteration over the lines of the file: \<open>None\<close> when \<open>open\<close>
  raises, else the lines the iteration yields and whether it reaches the end of the file
  (\<open>False\<close> when decoding a later part of the file raises).

  The three extractors of TOML files and \<open>parse_setup_py\<close> walk dynamically typed
  documents.  Of them the model keeps the exception structure and the use of the
  splitter; the walk itself is given by the environment: \<open>pyproject_rows\<close> are the rows of
  \<open>extract_pyproject_dependencies\<close> on a loaded document (\<open>None\<close> when the walk raises),
  \<open>poetry_lock_rows\<close> and \<open>pipfile_rows\<close> the rows appended before the loop ends or raises, and
  \<open>install_requires\<close> the string constants \<open>parse_setup_py\<close> collects (\<open>None\<close> when reading,
  parsing or the walk raises).
\<close>

record environment =
  os_walk :: "(string \<times> string) list"
  toml_loads :: "string \<Rightarrow> bool"
  pyproject_rows :: "string \<Rightarrow> dependency list option"
  poetry_lock_rows :: "string \<Rightarrow> dependency list"
  pipfile_rows :: "string \<Rightarrow> dependency list"
  yaml_safe_load :: "string \<Rightarrow> yaml option"
  read_lines :: "string \<Rightarrow> (string list \<times> bool) option"
  install_requires :: "string \<Rightarrow> string list option"
  is_builtin :: "string \<Rightarrow> bool option"
  csv_writable :: bool

subsection \<open>The extractors\<close>

text \<open>\<open>s.startswith(prefix)\<close>.\<close>

definition startswith :: "string \<Rightarrow> string \<Rightarrow> bool" where
  "startswith s prefix = (take (length prefix) s = prefix)"

definition parse_setup_py :: "environment \<Rightarrow> string \<Rightarrow> dependency list option" where
  "parse_setup_py env file_path =
     (case install_requires env file_path of
        None \<Rightarrow> None
      | Some deps \<Rightarrow> Some (map (\<lambda>dep. (file_path, split_dependency dep)) deps))"

text \<open>\<open>toml.load\<close> is inside the \<open>try\<close> for the Pipfile and the lock file, outside for pyproject.\<close>

definition extract_pipfile_dependencies :: "environment \<Rightarrow> string \<Rightarrow> dependency list" where
  "extract_pipfile_dependencies env pipfile_path =
     (if toml_loads env pipfile_path then pipfile_rows env pipfile_path else [])"

definition extract_pyproject_dependencies :: "environment \<Rightarrow> string \<Rightarrow> dependency list option" where
  "extract_pyproject_dependencies env pyproject_path =
     (if toml_loads env pyproject_path then pyproject_rows env pyproject_path else None)"

definition extract_poetry_lock_dependencies :: "environment \<Rightarrow> string \<Rightarrow> dependency list" where
  "extract_poetry_lock_dependencies env poetry_lock_path =
     (if toml_loads env poetry_lock_path then poetry_lock_rows env poetry_lock_path else [])"

text \<open>
  \<open>get_conda_dependencies\<close>.  Its first loop appends a \<open>python\<close> row for every string item
  that starts with \<open>python\<close>.
\<close>

fun python_rows :: "string \<Rightarrow> yaml list \<Rightarrow> dependency list" where
  "python_rows env_file [] = []"
| "python_rows env_file (YStr item # items) =
     (if startswith item ''python'' then [(env_file, ''python'', snd (split_dependency item))] else []) @
     python_rows env_file items"
| "python_rows env_file (item # items) = python_rows env_file items"

text \<open>
  The loops of the second part return the rows they appended and whether an exception
  ended them: \<open>split_dependency\<close> raises on a value that is not a string, and \<open>dep["pip"]\<close>
  may not be iterable.  The \<open>except\<close> clause keeps the rows appended so far.
\<close>

fun pip_loop :: "string \<Rightarrow> yaml list \<Rightarrow> dependency list \<times> bool" where
  "pip_loop env_file [] = ([], False)"
| "pip_loop env_file (YStr pip_dep # rest) =
     (let (rows, raised) = pip_loop env_file rest
      in ((env_file, split_dependency pip_dep) # rows, raised))"
| "pip_loop env_file (pip_dep # rest) = ([], True)"

fun dep_loop :: "string \<Rightarrow> yaml list \<Rightarrow> dependency list \<times> bool" where
  "dep_loop env_file [] = ([], False)"
| "dep_loop env_file (YStr dep # rest) =
     (let (rows, raised) = dep_loop env_file rest
      in ((env_file, split_dependency dep) # rows, raised))"
| "dep_loop env_file (YDict dep # rest) =
     (case map_of dep (YStr ''pip'') of
        None \<Rightarrow> dep_loop env_file rest
      | Some pip \<Rightarrow>
          (case iterate pip of
             None \<Rightarrow> ([], True)
           | Some pip_deps \<Rightarrow>
               (let (rows, raised) = pip_loop env_file pip_deps
                in if raised then (rows, True)
                   else (let (rows', raised') = dep_loop env_file rest
                         in (rows @ rows', raised')))))"
| "dep_loop env_file (dep # rest) = dep_loop env_file rest"

definition get_conda_dependencies :: "environment \<Rightarrow> string \<Rightarrow> dependency list" where
  "get_conda_dependencies env env_file =
     (case yaml_safe_load env env_file of
        None \<Rightarrow> []
      | Some (YDict env_data) \<Rightarrow>
          (let deps = (case map_of env_data (YStr ''dependencies'') of None \<Rightarrow> YList [] | Some d \<Rightarrow> d);
               dependencies = (case deps of YList items \<Rightarrow> python_rows env_file items | _ \<Rightarrow> [])
           in case iterate deps of
                None \<Rightarrow> dependencies
              | Some ds \<Rightarrow> dependencies @ fst (dep_loop env_file ds))
      | Some _ \<Rightarrow> [])"

text \<open>
  \<open>get_pip_dependencies\<close>: the rows of the lines the iteration yields.  When the iteration
  raises, the \<open>except\<close> clause keeps the rows appended so far.
\<close>

definition get_pip_dependencies :: "environment \<Rightarrow> string \<Rightarrow> dependency list" where
  "get_pip_dependencies env requirements_file =
     (case read_lines env requirements_file of
        None \<Rightarrow> []
      | Some (lines, complete) \<Rightarrow>
          concat (map (\<lambda>line0.
            (let line = strip line0
             in if line \<noteq> [] \<and> \<not> startswith line ''#''
                then [(requirements_file, split_dependency line)] else [])) lines))"

text \<open>
  The pattern \<^verbatim>\<open>^\s*(?:import|from)\s+([\w\d_\.]+)\<close> of \<open>extract_python_file_dependencies\<close> on
  one line, and \<open>match.group(1).split(".")[0]\<close>.
\<close>

definition import_line_module :: "string \<Rightarrow> string option" where
  "import_line_module line =
     (let r = dropWhile isspace line;
          r1 = (if startswith r ''import'' then Some (drop 6 r)
                else if startswith r ''from'' then Some (drop 4 r) else None)
      in case r1 of
           None \<Rightarrow> None
         | Some r2 \<Rightarrow>
             (let g = takeWhile (\<lambda>c. word_char c \<or> c = CHR ''.'') (dropWhile isspace r2)
              in if takeWhile isspace r2 = [] \<or> g = [] then None
                 else Some (takeWhile (\<lambda>c. c \<noteq> CHR ''.'') g)))"

text \<open>
  The modules one file adds, over the lines the iteration yields; an exception of the probe
  ends the file, and so does one of the iteration, with the modules added so far kept.
\<close>

fun file_modules :: "environment \<Rightarrow> string list \<Rightarrow> string list" where
  "file_modules env [] = []"
| "file_modules env (line # lines) =
     (case import_line_module line of
        None \<Rightarrow> file_modules env lines
      | Some module \<Rightarrow>
          (case is_builtin env module of
             None \<Rightarrow> []
           | Some True \<Rightarrow> file_modules env lines
           | Some False \<Rightarrow> module # file_modules env lines))"

text \<open>
  \<open>extract_python_file_dependencies\<close> collects a Python \<open>set\<close> and returns \<open>list(dependencies)\<close>:
  the elements in the iteration order of the set, which the code does not fix.  The model
  keeps the set.
\<close>

definition extract_python_file_dependencies :: "environment \<Rightarrow> string \<Rightarrow> dependency set" where
  "extract_python_file_dependencies env python_version =
     set (concat (map (\<lambda>(name, file_path).
       (if endswith name ''.py''
        then (case read_lines env file_path of
                None \<Rightarrow> []
              | Some (lines, complete) \<Rightarrow>
                  map (\<lambda>module. (file_path, module, python_version)) (file_modules env lines))
        else [])) (os_walk env)))"

text \<open>\<open>s.lower()\<close> on the code points below 256.\<close>

definition lower_char :: "char \<Rightarrow> char" where
  "lower_char c =
     (let n = (of_char c :: nat)
      in if (65 \<le> n \<and> n \<le> 90) \<or> (192 \<le> n \<and> n \<le> 214) \<or> (216 \<le> n \<and> n \<le> 222)
         then char_of (n + 32) else c)"

definition lower :: "string \<Rightarrow> string" where
  "lower s = map lower_char s"

definition find_all_files :: "environment \<Rightarrow> string \<Rightarrow> string list" where
  "find_all_files env filename =
     map snd (filter (\<lambda>(f, file_path). lower f = lower filename) (os_walk env))"

subsection \<open>\<open>extract_project_dependencies\<close>\<close>

text \<open>The dictionary \<open>dependency_files\<close>, in its order; \<open>None\<close> is an extractor that raises.\<close>

definition dependency_files :: "(string \<times> (environment \<Rightarrow> string \<Rightarrow> dependency list option)) list" where
  "dependency_files =
     [(''pyproject.toml'', extract_pyproject_dependencies),
      (''poetry.lock'', \<lambda>env p. Some (extract_poetry_lock_dependencies env p)),
      (''Pipfile'', \<lambda>env p. Some (extract_pipfile_dependencies env p)),
      (''environment.yml'', \<lambda>env p. Some (get_conda_dependencies env p)),
      (''requirements.txt'', \<lambda>env p. Some (get_pip_dependencies env p)),
      (''setup.py'', parse_setup_py)]"

text \<open>The body of the inner loop: \<open>try: all_dependencies.extend(extractor(file_path))\<close>.\<close>

definition extend_from ::
  "environment \<Rightarrow> (environment \<Rightarrow> string \<Rightarrow> dependency list option) \<Rightarrow> string \<Rightarrow> dependency list" where
  "extend_from env extractor file_path =
     (case extractor env file_path of None \<Rightarrow> [] | Some rows \<Rightarrow> rows)"

definition manifest_dependencies :: "environment \<Rightarrow> dependency list" where
  "manifest_dependencies env =
     concat (map (\<lambda>(filename, extractor).
       concat (map (extend_from env extractor) (find_all_files env filename))) dependency_files)"

text \<open>\<open>os.path.join(a, b)\<close> for a relative \<open>b\<close>, with the POSIX separator.\<close>

definition os_path_join :: "string \<Rightarrow> string \<Rightarrow> string" where
  "os_path_join a b = (if a = [] \<or> last a = CHR ''/'' then a @ b else a @ ''/'' @ b)"

text \<open>
  What a run of \<open>extract_project_dependencies\<close> leaves: the rows written to the CSV file
  under the header (those of the manifests in order, then those inferred from the source
  files) and the string returned.  \<open>None\<close> is the exception of a CSV file that cannot be
  written.
\<close>

record extraction =
  manifest_rows :: "dependency list"
  inferred_rows :: "dependency set"
  returned :: string

definition extract_project_dependencies :: "environment \<Rightarrow> string \<Rightarrow> extraction option" where
  "extract_project_dependencies env project_path =
     (let csv_file = os_path_join project_path ''all_dependencies_with_paths.csv''
      in if csv_writable env
         then Some \<lparr>manifest_rows = manifest_dependencies env,
                    inferred_rows = extract_python_file_dependencies env ''latest'',
                    returned = ''Dependencies extracted and saved to '' @ csv_file\<rparr>
         else None)"

subsection \<open>\<open>generate_ast_usage_pdf\<close>\<close>

text \<open>
  The string the tool returns: \<open>Reply s\<close> is the string \<open>s\<close>; \<open>ErrorReply e\<close> is the string of
  the \<open>except\<close> clause, the cross mark U+274C followed by \<open> Error generating PDF: \<close> and \<open>e\<close>.
\<close>

datatype reply = Reply string | ErrorReply message

text \<open>
  \<open>path_exists\<close> is \<open>os.path.exists(project_path)\<close>, \<open>files\<close> the files of the walk, and
  \<open>render\<close> the call of \<open>generate_pdf_report\<close> on the results: the message of the exception
  it raises, or whether the PDF file exists afterwards.
\<close>

definition generate_ast_usage_pdf ::
  "bool \<Rightarrow> source_file list \<Rightarrow> (result list \<Rightarrow> message + bool) \<Rightarrow> string \<Rightarrow> reply" where
  "generate_ast_usage_pdf path_exists files render project_path =
     (if \<not> path_exists then ErrorReply (''Project path does not exist: '' @ project_path)
      else
        (let results = analyze_repo files
         in if results = []
            then ErrorReply ''No Python files or analysis results found in the project path.''
            else
              (case render results of
                 Inl e \<Rightarrow> ErrorReply e
               | Inr created \<Rightarrow>
                   if \<not> created then ErrorReply ''PDF file was not created.''
                   else Reply (''AST usage report saved to: '' @
                               os_path_join project_path ''ast_report.pdf''))))"

subsection \<open>Notions used to state the extractor's properties\<close>

text \<open>The string items of a list.\<close>

fun string_items :: "yaml list \<Rightarrow> string list" where
  "string_items [] = []"
| "string_items (YStr s # items) = s # string_items items"
| "string_items (item # items) = string_items items"

text \<open>
  An entry of the \<open>dependencies\<close> list on which the second loop raises nothing: any entry
  but a mapping whose \<open>pip\<close> value is not a list of strings.
\<close>

fun is_YStr :: "yaml \<Rightarrow> bool" where
  "is_YStr (YStr s) = True"
| "is_YStr y = False"

fun conda_entry_ok :: "yaml \<Rightarrow> bool" where
  "conda_entry_ok (YDict dep) =
     (case map_of dep (YStr ''pip'') of
        None \<Rightarrow> True
      | Some (YList pip_deps) \<Rightarrow> list_all is_YStr pip_deps
      | Some y \<Rightarrow> False)"
| "conda_entry_ok y = True"

text \<open>
  The rows of one entry: a string entry gives the row of the splitter, a mapping with a
  \<open>pip\<close> list one row for each of its strings.
\<close>

fun conda_entry_rows :: "string \<Rightarrow> yaml \<Rightarrow> dependency list" where
  "conda_entry_rows env_file (YStr dep) = [(env_file, split_dependency dep)]"
| "conda_entry_rows env_file (YDict dep) =
     (case map_of dep (YStr ''pip'') of
        Some (YList pip_deps) \<Rightarrow> map (\<lambda>s. (env_file, split_dependency s)) (string_items pip_deps)
      | _ \<Rightarrow> [])"
| "conda_entry_rows env_file y = []"

text \<open>
  The rows of one entry as claim C8 words them: a string entry that starts with \<open>python\<close>
  becomes the single synthetic \<open>python\<close> row, any other string entry the row of the
  splitter.
\<close>

fun claimed_conda_entry_rows :: "string \<Rightarrow> yaml \<Rightarrow> dependency list" where
  "claimed_conda_entry_rows env_file (YStr dep) =
     (if startswith dep ''python'' then [(env_file, ''python'', snd (split_dependency dep))]
      else [(env_file, split_dependency dep)])"
| "claimed_conda_entry_rows env_file y = conda_entry_rows env_file y"

subsection \<open>Example projects\<close>

text \<open>A project directory that exists and holds no file.\<close>

definition empty_project :: environment where
  "empty_project =
     \<lparr>os_walk = [], toml_loads = (\<lambda>p. False), pyproject_rows = (\<lambda>p. None),
      poetry_lock_rows = (\<lambda>p. []), pipfile_rows = (\<lambda>p. []), yaml_safe_load = (\<lambda>p. None),
      read_lines = (\<lambda>p. None), install_requires = (\<lambda>p. None), is_builtin = (\<lambda>m. Some True),
      csv_writable = True\<rparr>"

text \<open>
  A project with one environment file, whose \<open>dependencies\<close> are \<^verbatim>\<open>python=3.9\<close>, \<^verbatim>\<open>numpy>=1.26\<close>
  and a \<open>pip\<close> list with \<^verbatim>\<open>requests==2.31.0\<close>, and one requirements file that cannot be opened.
\<close>

definition conda_document :: yaml where
  "conda_document =
     YDict [(YStr ''name'', YStr ''demo''),
            (YStr ''dependencies'',
             YList [YStr ''python=3.9'', YStr ''numpy>=1.26'',
                    YDict [(YStr ''pip'', YList [YStr ''requests==2.31.0''])]])]"

definition conda_project :: environment where
  "conda_project =
     empty_project
       \<lparr>os_walk := [(''environment.yml'', ''proj/environment.yml''),
                   (''requirements.txt'', ''proj/requirements.txt'')],
        yaml_safe_load := (\<lambda>p. if p = ''proj/environment.yml'' then Some conda_document else None)\<rparr>"

text \<open>
  A project with two manifest files that are read in part.  The environment file is
  \<^verbatim>\<open>dependencies:\<close>, \<^verbatim>\<open>  - numpy\<close>, \<^verbatim>\<open>  - pip:\<close>, \<^verbatim>\<open>  - scipy\<close>: the value of \<open>pip\<close> is null, so the
  loop over it raises \<open>TypeError\<close>.  Of the requirements file the iteration yields the line
  \<^verbatim>\<open>flask==2.0.1\<close> and then raises on bytes it cannot decode.
\<close>

definition malformed_document :: yaml where
  "malformed_document =
     YDict [(YStr ''dependencies'',
             YList [YStr ''numpy'', YDict [(YStr ''pip'', YScalar)], YStr ''scipy''])]"

definition malformed_project :: environment where
  "malformed_project =
     empty_project
       \<lparr>os_walk := [(''environment.yml'', ''proj/environment.yml''),
                   (''requirements.txt'', ''proj/requirements.txt'')],
        yaml_safe_load := (\<lambda>p. if p = ''proj/environment.yml'' then Some malformed_document else None),
        read_lines := (\<lambda>p. if p = ''proj/requirements.txt''
                            then Some ([''flask==2.0.1'' @ [CHR 0x0A]], False) else None)\<rparr>"

section \<open>Properties of the dependency-spec splitter\<close>

lemma word_char_not_space: "word_char c \<Longrightarrow> \<not> isspace c"
  by (auto simp: word_char_def isspace_def Let_def)

lemma name_char_not_space: "name_char c \<Longrightarrow> \<not> isspace c"
  unfolding name_char_def
  by (elim disjE) (simp_all add: word_char_not_space, simp_all add: isspace_def)

lemma version_char_not_space: "version_char c \<Longrightarrow> \<not> isspace c"
  unfolding version_char_def
  by (elim disjE) (simp_all add: word_char_not_space, simp_all add: isspace_def)

lemma dropWhile_rev_last: "s \<noteq> [] \<Longrightarrow> \<not> P (last s) \<Longrightarrow> dropWhile P (rev s) = rev s"
  by (induction s rule: rev_induct) auto

lemma strip_id: "s = [] \<or> (\<not> isspace (hd s) \<and> \<not> isspace (last s)) \<Longrightarrow> strip s = s"
  by (cases s) (auto simp: strip_def dropWhile_rev_last simp del: rev.simps)

lemma strip_surround:
  assumes "list_all isspace a" "list_all isspace b" "n \<noteq> []" "\<not> isspace (hd n)" "\<not> isspace (last n)"
  shows "strip (a @ n @ b) = n"
proof -
  have 1: "dropWhile isspace (a @ n @ b) = n @ b"
    using assms by (cases n) (auto simp: list_all_iff dropWhile_append)
  have 2: "dropWhile isspace (rev (n @ b)) = rev n"
    using assms by (simp add: list_all_iff dropWhile_append dropWhile_rev_last)
  show ?thesis by (simp only: strip_def 1 2 rev_rev_ident)
qed


lemma match_operator_cases:
  "match_operator s = None \<or> (\<exists>op. match_operator s = Some op \<and> op \<in> set operators)"
  by (cases "match_operator s") (auto simp: match_operator_def find_Some_iff)

lemma operator_ends: "op \<in> set operators \<Longrightarrow> op \<noteq> [] \<and> \<not> isspace (hd op) \<and> \<not> isspace (last op)"
  by (auto simp: operators_def isspace_def)

lemma strip_constraint:
  assumes "op = [] \<or> op \<in> set operators" "list_all version_char num"
  shows "strip (op @ num) = op @ num"
proof (rule strip_id)
  show "op @ num = [] \<or> \<not> isspace (hd (op @ num)) \<and> \<not> isspace (last (op @ num))"
  proof (cases "op @ num = []")
    case True then show ?thesis by simp
  next
    case False
    have h: "\<not> isspace (hd (op @ num))"
      using assms False operator_ends[of op]
      by (cases op; cases num) (auto simp: version_char_not_space)
    have l: "\<not> isspace (last (op @ num))"
    proof (cases "num = []")
      case True
      with assms False show ?thesis using operator_ends[of op] by auto
    next
      case False
      then have "last num \<in> set num" by simp
      with assms False show ?thesis by (auto simp: list_all_iff version_char_not_space)
    qed
    from h l show ?thesis by simp
  qed
qed

lemma match_spec_version:
  assumes "match_spec dep = Some (p, vop, vnum)"
  shows "(vop = None \<or> (\<exists>op. vop = Some op \<and> op \<in> set operators)) \<and> list_all version_char (group_or_empty vnum)"
  using assms match_operator_cases
  by (auto simp: match_spec_def Let_def group_or_empty_def list_all_iff split: if_splits dest: set_takeWhileD)

lemma version_regex_branch:
  assumes "match_spec dep = Some (p, vop, vnum)"
  shows "or_latest (strip (group_or_empty vop @ group_or_empty vnum)) = ''latest'' \<or>
         is_constraint (or_latest (strip (group_or_empty vop @ group_or_empty vnum)))"
proof -
  let ?op = "group_or_empty vop" and ?num = "group_or_empty vnum"
  from match_spec_version[OF assms] have op: "?op = [] \<or> ?op \<in> set operators" and num: "list_all version_char ?num"
    by (auto simp: group_or_empty_def)
  then have s: "strip (?op @ ?num) = ?op @ ?num" by (rule strip_constraint)
  show ?thesis
  proof (cases "?op @ ?num = []")
    case True
    then show ?thesis by (simp add: or_latest_def strip_def)
  next
    case False
    have "list_ex (\<lambda>x. take (length x) (?op @ ?num) = x \<and>
             list_all version_char (drop (length x) (?op @ ?num))) ([] # operators)"
    proof (cases "?op = []")
      case True
      with num show ?thesis by simp
    next
      case False
      with op have "?op \<in> set operators" by simp
      moreover have "take (length ?op) (?op @ ?num) = ?op \<and>
             list_all version_char (drop (length ?op) (?op @ ?num))" using num by simp
      ultimately show ?thesis unfolding list_ex_iff by (meson list.set_intros(2))
    qed
    with False have "is_constraint (?op @ ?num)"
      unfolding is_constraint_def by simp
    with False show ?thesis by (simp add: s or_latest_def)
  qed
qed

lemma version_cases:
  "snd (split_dependency dep) = ''latest'' \<or> take 2 (snd (split_dependency dep)) = ''@ '' \<or>
   is_constraint (snd (split_dependency dep))"
proof (cases "CHR ''@'' \<in> set (strip_markers dep)")
  case True
  then show ?thesis by (simp add: split_dependency_def Let_def split_beta)
next
  case False
  show ?thesis
  proof (cases "match_spec (strip_markers dep)")
    case None
    with False show ?thesis by (simp add: split_dependency_def Let_def)
  next
    case (Some t)
    obtain p vop vnum where t: "t = (p, vop, vnum)" by (cases t)
    from version_regex_branch[of "strip_markers dep" p vop vnum] Some t False
    show ?thesis by (auto simp: split_dependency_def Let_def)
  qed
qed

lemma is_constraint_nonempty: "is_constraint v \<Longrightarrow> v \<noteq> []"
  by (simp add: is_constraint_def)

lemma match_spec_name_only:
  assumes "n \<noteq> []" "list_all name_char n"
  shows "match_spec n = Some (n, None, None)"
proof -
  have t: "takeWhile name_char n = n" and d: "dropWhile name_char n = []"
    using assms by (auto simp: list_all_iff)
  show ?thesis using assms
    by (simp add: match_spec_def t d skip_extras_def match_operator_def operators_def)
qed

lemma name_chars_plain:
  assumes "list_all name_char n"
  shows "CHR '';'' \<notin> set n \<and> CHR ''@'' \<notin> set n"
proof -
  have "\<not> name_char CHR '';''" "\<not> name_char CHR ''@''"
    by (simp_all add: name_char_def word_char_def)
  with assms show ?thesis by (auto simp: list_all_iff)
qed

lemma bare_name_latest:
  assumes "n \<noteq> []" "list_all name_char n" "list_all isspace a" "list_all isspace b"
  shows "split_dependency (a @ n @ b) = (n, ''latest'')"
proof -
  have "hd n \<in> set n" "last n \<in> set n" using assms by simp_all
  with assms have "\<not> isspace (hd n)" "\<not> isspace (last n)"
    by (auto simp: list_all_iff name_char_not_space)
  with assms have s: "strip (a @ n @ b) = n" by (simp add: strip_surround)
  from name_chars_plain[OF assms(2)] have sm: "strip_markers (a @ n @ b) = n"
    by (simp add: strip_markers_def s)
  show ?thesis using name_chars_plain[OF assms(2)] match_spec_name_only[OF assms(1,2)]
    by (simp add: split_dependency_def sm or_latest_def group_or_empty_def strip_def)
qed

text \<open>
  Claim C10.  For every input string the version component returned by the splitter is
  not empty: it is \<open>latest\<close>, or it begins with \<open>@ \<close>, or it is a non-empty
  operator/version constraint.  An input that is only a name (with any surrounding
  whitespace) yields \<open>latest\<close>.
\<close>

theorem split_dependency_version_nonempty:
  "snd (split_dependency dep) \<noteq> [] \<and>
   (snd (split_dependency dep) = ''latest'' \<or> take 2 (snd (split_dependency dep)) = ''@ '' \<or>
    is_constraint (snd (split_dependency dep))) \<and>
   (\<forall>a n b. n \<noteq> [] \<and> list_all name_char n \<and> list_all isspace a \<and> list_all isspace b \<longrightarrow>
      split_dependency (a @ n @ b) = (n, ''latest''))"
proof -
  have "snd (split_dependency dep) \<noteq> []"
    using version_cases[of dep] is_constraint_nonempty by fastforce
  then show ?thesis using version_cases[of dep] bare_name_latest by blast
qed





theorem split_dependency_version_nonempty_witness:
  "snd (split_dependency ''flask'') = ''latest'' \<and> snd (split_dependency ''flask'') \<noteq> [] \<and>
   split_dependency ('' '' @ ''flask'' @ '' '') = (''flask'', ''latest'')"
proof -
  have h: "''flask'' \<noteq> [] \<and> list_all name_char ''flask'' \<and> list_all isspace '' '' \<and> list_all isspace '' ''"
    by code_simp
  have "snd (split_dependency ''flask'') = ''latest''" by code_simp
  with h split_dependency_version_nonempty[of "''flask''"] show ?thesis by blast
qed

section \<open>Properties of the source import scanner\<close>

subsection \<open>The dictionaries of \<open>analyze_repo\<close>\<close>

lemma import_map_fold_keys:
  "fst ` set (foldl (\<lambda>m imp. AList.update (imp_alias imp) imp m) m0 imps) =
     fst ` set m0 \<union> imp_alias ` set imps"
  by (induction imps arbitrary: m0) (auto simp: dom_update)

lemma import_map_fold_distinct:
  "distinct (map fst m0) \<Longrightarrow>
     distinct (map fst (foldl (\<lambda>m imp. AList.update (imp_alias imp) imp m) m0 imps))"
  by (induction imps arbitrary: m0) (auto simp: distinct_update)

lemma import_map_keys: "fst ` set (import_map_of imps) = imp_alias ` set imps"
  by (simp add: import_map_of_def import_map_fold_keys)

lemma import_map_distinct: "distinct (map fst (import_map_of imps))"
  by (simp add: import_map_of_def import_map_fold_distinct)

lemma usage_map_step_lookup:
  "map_of (usage_map_step m u) a =
     (case map_of m a of None \<Rightarrow> None
      | Some us \<Rightarrow> Some (us @ filter (\<lambda>u. root_name (fst u) = a) [u]))"
  by (auto simp: usage_map_step_def update_conv' split: option.splits)

lemma usage_map_fold_lookup:
  "map_of (foldl usage_map_step m us) a =
     (case map_of m a of None \<Rightarrow> None
      | Some us0 \<Rightarrow> Some (us0 @ filter (\<lambda>u. root_name (fst u) = a) us))"
proof (induction us arbitrary: m)
  case Nil
  then show ?case by (simp split: option.splits)
next
  case (Cons u us)
  show ?case
    by (simp add: Cons.IH usage_map_step_lookup split: option.splits)
qed

lemma usage_map_init_lookup:
  "map_of (map (\<lambda>(a, imp). (a, [])) im) a = (if a \<in> fst ` set im then Some [] else None)"
  by (induction im) (auto)

lemma usage_map_lookup:
  "map_of (usage_map_of im us) a =
     (if a \<in> fst ` set im then Some (filter (\<lambda>u. root_name (fst u) = a) us) else None)"
  by (simp add: usage_map_of_def usage_map_fold_lookup usage_map_init_lookup)

lemma emit_blocks:
  "emit path v =
     concat (map (block path (usage v)) (import_map_of (import_entries v)))"
proof -
  have "\<And>g. g \<in> set (import_map_of (import_entries v)) \<Longrightarrow>
      (case g of (a, imp) \<Rightarrow> import_result path a imp #
           map (usage_result path a)
             (case map_of (usage_map_of (import_map_of (import_entries v)) (usage v)) a of
                None \<Rightarrow> [] | Some us \<Rightarrow> us)) = block path (usage v) g"
    by (auto simp: block_def usage_map_lookup split: prod.splits intro: rev_image_eqI)
  then show ?thesis
    unfolding emit_def Let_def by (metis (no_types, lifting) map_eq_conv)
qed

subsection \<open>The ordering invariant\<close>

lemma usage_blocks_skip:
  "\<forall>x\<in>set xs. r_type x \<noteq> ''import'' \<Longrightarrow>
     usage_blocks ok seen (xs @ rest) = usage_blocks ok (seen @ xs) rest"
  by (induction xs arbitrary: seen) auto

lemma takeWhile_block:
  "\<forall>x\<in>set xs. P x \<Longrightarrow> rest = [] \<or> \<not> P (hd rest) \<Longrightarrow> takeWhile P (xs @ rest) = xs"
  by (cases rest) (auto simp: takeWhile_append)

lemma block_member:
  "x \<in> set (block path us g) \<Longrightarrow>
     (x = import_result path (fst g) (snd g)) \<or>
     (\<exists>u\<in>set us. root_name (fst u) = fst g \<and> x = usage_result path (fst g) u)"
  by (auto simp: block_def)

lemma blocks_not_attributed:
  "a \<notin> fst ` set gs \<Longrightarrow> filter (attributed a) (concat (map (block path us) gs)) = []"
proof -
  assume a: "a \<notin> fst ` set gs"
  have "\<not> attributed a x" if "x \<in> set (concat (map (block path us) gs))" for x
  proof -
    from that obtain g where g: "g \<in> set gs" and x: "x \<in> set (block path us g)" by auto
    from g a have "fst g \<noteq> a" by auto
    with block_member[OF x] show ?thesis
      by (auto simp: attributed_def import_result_def usage_result_def)
  qed
  then show ?thesis by (simp add: filter_empty_conv)
qed

lemma blocks_invariant:
  assumes "distinct (map fst gs)"
    and "\<forall>x\<in>set seen. \<not> (r_type x = ''usage'' \<and> r_alias x \<in> fst ` set gs)"
    and "\<forall>g\<in>set gs. ok (fst g) (map (usage_result path (fst g)) (filter (\<lambda>u. root_name (fst u) = fst g) us))"
  shows "usage_blocks ok seen (concat (map (block path us) gs))"
  using assms
proof (induction gs arbitrary: seen)
  case Nil
  then show ?case by simp
next
  case (Cons g gs)
  let ?a = "fst g"
  let ?I = "import_result path (fst g) (snd g)"
  let ?U = "map (usage_result path ?a) (filter (\<lambda>u. root_name (fst u) = ?a) us)"
  let ?G = "concat (map (block path us) gs)"
  have a_notin: "?a \<notin> fst ` set gs" using Cons.prems(1) by auto
  have U_attr: "\<forall>x\<in>set ?U. attributed ?a x" by (auto simp: attributed_def usage_result_def)
  have U_type: "\<forall>x\<in>set ?U. r_type x \<noteq> ''import''" by (auto simp: usage_result_def)
  have G_hd: "?G = [] \<or> \<not> attributed ?a (hd ?G)"
  proof (cases gs)
    case Nil then show ?thesis by simp
  next
    case (Cons h hs)
    then show ?thesis by (simp add: block_def attributed_def import_result_def)
  qed
  have tw: "takeWhile (attributed ?a) (?U @ ?G) = ?U"
    using U_attr G_hd by (rule takeWhile_block)
  have fb: "filter (attributed ?a) seen = []"
    using Cons.prems(2) by (auto simp: filter_empty_conv attributed_def)
  have fU: "filter (attributed ?a) ?U = ?U" using U_attr by simp
  have fl: "filter (attributed ?a) (seen @ ?I # ?U @ ?G) = ?U"
    using fb fU blocks_not_attributed[OF a_notin, of path us]
    by (simp add: attributed_def import_result_def)
  have okU: "ok ?a ?U" using Cons.prems(3) by simp
  have rest: "usage_blocks ok ((seen @ [?I]) @ ?U) ?G"
  proof (rule Cons.IH)
    show "distinct (map fst gs)" using Cons.prems(1) by simp
    show "\<forall>x\<in>set ((seen @ [?I]) @ ?U). \<not> (r_type x = ''usage'' \<and> r_alias x \<in> fst ` set gs)"
    proof
      fix x assume x: "x \<in> set ((seen @ [?I]) @ ?U)"
      have sub: "fst ` set gs \<subseteq> fst ` set (g # gs)" by auto
      from x consider "x \<in> set seen" | "x = ?I" | "x \<in> set ?U" by auto
      then show "\<not> (r_type x = ''usage'' \<and> r_alias x \<in> fst ` set gs)"
      proof cases
        case 1
        with Cons.prems(2) sub show ?thesis by blast
      next
        case 2
        then show ?thesis by (simp add: import_result_def)
      next
        case 3
        then have "r_alias x = ?a" by (auto simp: usage_result_def)
        with a_notin show ?thesis by simp
      qed
    qed
    show "\<forall>g\<in>set gs. ok (fst g) (map (usage_result path (fst g)) (filter (\<lambda>u. root_name (fst u) = fst g) us))"
      using Cons.prems(3) by simp
  qed
  have I_type: "r_type ?I = ''import''" and I_alias: "r_alias ?I = ?a"
    by (simp_all add: import_result_def)
  have rest': "usage_blocks ok (seen @ [?I]) (?U @ ?G)"
    using rest usage_blocks_skip[OF U_type, of ok "seen @ [?I]" ?G] by simp
  have eq: "concat (map (block path us) (g # gs)) = ?I # ?U @ ?G"
    by (simp add: block_def)
  show ?case unfolding eq
    by (simp only: usage_blocks.simps I_type I_alias if_True tw fl okU rest' simp_thms)
qed

lemma usage_result_triple:
  "map ((\<lambda>r. (r_symbol r, r_lineno r, r_code r)) \<circ> usage_result path a) xs = xs"
  by (induction xs) (auto simp: usage_result_def)

lemma analyze_file_visited:
  "analyze_file f =
     (case visited f of Inl e \<Rightarrow> [error_result (src_path f) e] | Inr v \<Rightarrow> emit (src_path f) v)"
  by (simp add: analyze_file_def visited_def split: sum.splits prod.splits)

text \<open>
  Claim C2, amended.  For every scanned source file, each import record for an alias is
  immediately followed by all the usage records attributed to that alias (none of them
  stands anywhere else in the file's stream), and those usage records appear in the order
  in which the walk of the syntax tree recorded their expressions.
\<close>

theorem usages_follow_import_in_visit_order:
  "visit_order_invariant f (analyze_file f)"
proof (cases "visited f")
  case (Inl e)
  then show ?thesis
    by (simp add: visit_order_invariant_def analyze_file_visited error_result_def)
next
  case (Inr v)
  have vu: "visited_usage f = usage v"
    using Inr by (simp add: visited_usage_def)
  have af: "analyze_file f = concat (map (block (src_path f) (usage v)) (import_map_of (import_entries v)))"
    using Inr by (simp add: analyze_file_visited emit_blocks)
  show ?thesis
    unfolding visit_order_invariant_def af vu
    by (rule blocks_invariant) (simp_all add: import_map_distinct usage_result_triple)
qed

text \<open>
  The claim C2 as stated asks for ascending line order inside a block.  The walk visits
  the body of a function before its decorators, so the usage on line 4 is recorded before
  the usage on line 2.
\<close>

theorem decorator_usage_not_in_line_order:
  "analyze_file decorated_file =
     [\<lparr>r_file = ''cache.py'', r_type = ''import'', r_symbol = ''functools'',
        r_alias = ''functools'', r_lineno = 1, r_code = ''import functools''\<rparr>,
      \<lparr>r_file = ''cache.py'', r_type = ''usage'', r_symbol = ''functools.reduce'',
        r_alias = ''functools'', r_lineno = 4, r_code = ''    return functools.reduce''\<rparr>,
      \<lparr>r_file = ''cache.py'', r_type = ''usage'', r_symbol = ''functools.lru_cache'',
        r_alias = ''functools'', r_lineno = 2, r_code = ''@functools.lru_cache''\<rparr>] \<and>
   \<not> ordering_invariant (analyze_file decorated_file)"
  by code_simp

theorem usages_follow_import_in_visit_order_witness:
  "visit_order_invariant decorated_file
     [\<lparr>r_file = ''cache.py'', r_type = ''import'', r_symbol = ''functools'',
        r_alias = ''functools'', r_lineno = 1, r_code = ''import functools''\<rparr>,
      \<lparr>r_file = ''cache.py'', r_type = ''usage'', r_symbol = ''functools.reduce'',
        r_alias = ''functools'', r_lineno = 4, r_code = ''    return functools.reduce''\<rparr>,
      \<lparr>r_file = ''cache.py'', r_type = ''usage'', r_symbol = ''functools.lru_cache'',
        r_alias = ''functools'', r_lineno = 2, r_code = ''@functools.lru_cache''\<rparr>]"
proof -
  have "analyze_file decorated_file =
     [\<lparr>r_file = ''cache.py'', r_type = ''import'', r_symbol = ''functools'',
        r_alias = ''functools'', r_lineno = 1, r_code = ''import functools''\<rparr>,
      \<lparr>r_file = ''cache.py'', r_type = ''usage'', r_symbol = ''functools.reduce'',
        r_alias = ''functools'', r_lineno = 4, r_code = ''    return functools.reduce''\<rparr>,
      \<lparr>r_file = ''cache.py'', r_type = ''usage'', r_symbol = ''functools.lru_cache'',
        r_alias = ''functools'', r_lineno = 2, r_code = ''@functools.lru_cache''\<rparr>]"
    by code_simp
  with usages_follow_import_in_visit_order[of decorated_file] show ?thesis by simp
qed

subsection \<open>Usage records are rooted at imported aliases\<close>

lemma analyze_file_member:
  assumes "r \<in> set (analyze_file f)"
  shows "(\<exists>e. visited f = Inl e \<and> r = error_result (src_path f) e) \<or>
         (\<exists>v g. visited f = Inr v \<and> g \<in> set (import_map_of (import_entries v)) \<and>
            (r = import_result (src_path f) (fst g) (snd g) \<or>
             (\<exists>u\<in>set (usage v). root_name (fst u) = fst g \<and> r = usage_result (src_path f) (fst g) u)))"
proof (cases "visited f")
  case (Inl e)
  with assms show ?thesis by (simp add: analyze_file_visited)
next
  case (Inr v)
  with assms obtain g where g: "g \<in> set (import_map_of (import_entries v))"
    and r: "r \<in> set (block (src_path f) (usage v) g)"
    by (auto simp: analyze_file_visited emit_blocks)
  from r have "r = import_result (src_path f) (fst g) (snd g) \<or>
     (\<exists>u\<in>set (usage v). root_name (fst u) = fst g \<and> r = usage_result (src_path f) (fst g) u)"
    by (auto simp: block_def)
  with Inr g show ?thesis by blast
qed

lemma usage_record_shape:
  assumes "r \<in> set (analyze_file f)" "r_type r = ''usage''"
  shows "\<exists>v g u. visited f = Inr v \<and> g \<in> set (import_map_of (import_entries v)) \<and>
           u \<in> set (usage v) \<and> root_name (fst u) = fst g \<and> r = usage_result (src_path f) (fst g) u"
proof -
  from analyze_file_member[OF assms(1)] consider
    (err) e where "r = error_result (src_path f) e" |
    (imp) g where "r = import_result (src_path f) (fst g) (snd g)" |
    (use) v g u where "visited f = Inr v" "g \<in> set (import_map_of (import_entries v))"
      "u \<in> set (usage v)" "root_name (fst u) = fst g" "r = usage_result (src_path f) (fst g) u"
    by blast
  then show ?thesis
  proof cases
    case err
    with assms(2) show ?thesis by (simp add: error_result_def)
  next
    case imp
    with assms(2) show ?thesis by (simp add: import_result_def)
  next
    case use
    then show ?thesis by blast
  qed
qed

text \<open>
  Claim C9.  Every usage record of a file's stream carries the alias of an import record
  of the same stream, the first dotted component of its symbol is that alias, and the
  alias is one the file imports; an expression recorded by the walk whose root name is
  not an imported alias gives no usage record.
\<close>

theorem usage_records_well_formed:
  "(\<forall>r\<in>set (analyze_file f). r_type r = ''usage'' \<longrightarrow>
      (\<exists>i\<in>set (analyze_file f). r_type i = ''import'' \<and> r_alias i = r_alias r) \<and>
      root_name (r_symbol r) = r_alias r \<and> r_alias r \<in> known_aliases f) \<and>
   (\<forall>u\<in>set (visited_usage f). root_name (fst u) \<notin> known_aliases f \<longrightarrow>
      \<not> (\<exists>r\<in>set (analyze_file f). r_type r = ''usage'' \<and> r_symbol r = fst u))"
proof -
  have A: "(\<exists>i\<in>set (analyze_file f). r_type i = ''import'' \<and> r_alias i = r_alias r) \<and>
           root_name (r_symbol r) = r_alias r \<and> r_alias r \<in> known_aliases f"
    if r: "r \<in> set (analyze_file f)" and t: "r_type r = ''usage''" for r
  proof -
    from usage_record_shape[OF r t] obtain v g u where
      v: "visited f = Inr v" and g: "g \<in> set (import_map_of (import_entries v))" and
      u: "u \<in> set (usage v)" "root_name (fst u) = fst g" and
      req: "r = usage_result (src_path f) (fst g) u" by blast
    let ?i = "import_result (src_path f) (fst g) (snd g)"
    have "?i \<in> set (block (src_path f) (usage v) g)" by (simp add: block_def)
    with g v have "?i \<in> set (analyze_file f)"
      by (auto simp: analyze_file_visited emit_blocks)
    moreover have "r_type ?i = ''import''" "r_alias ?i = r_alias r"
      by (simp_all add: import_result_def req usage_result_def)
    moreover have "root_name (r_symbol r) = r_alias r"
      using u by (simp add: req usage_result_def)
    moreover have "fst g \<in> fst ` set (import_map_of (import_entries v))" using g by simp
    then have "r_alias r \<in> known_aliases f"
      by (simp add: known_aliases_def v import_map_keys req usage_result_def)
    ultimately show ?thesis by blast
  qed
  have B: "\<not> (\<exists>r\<in>set (analyze_file f). r_type r = ''usage'' \<and> r_symbol r = fst u)"
    if n: "root_name (fst u) \<notin> known_aliases f" for u
  proof
    assume "\<exists>r\<in>set (analyze_file f). r_type r = ''usage'' \<and> r_symbol r = fst u"
    then obtain r where r: "r \<in> set (analyze_file f)" "r_type r = ''usage''" "r_symbol r = fst u"
      by blast
    from A[OF r(1,2)] r(3) n show False by simp
  qed
  from A B show ?thesis by blast
qed

theorem usage_records_well_formed_witness:
  "(''os.sep'', 5, ''sep = os.sep'') \<in> set (visited_usage decorated_file) \<and>
   ''os'' \<notin> known_aliases decorated_file \<and>
   \<not> (\<exists>r\<in>set (analyze_file decorated_file). r_type r = ''usage'' \<and> r_symbol r = ''os.sep'') \<and>
   usage_result ''cache.py'' ''functools'' (''functools.reduce'', 4, ''    return functools.reduce'')
     \<in> set (analyze_file decorated_file) \<and>
   ''functools'' \<in> known_aliases decorated_file"
proof -
  let ?u = "(''os.sep'', 5::int, ''sep = os.sep'')"
  let ?r = "usage_result ''cache.py'' ''functools'' (''functools.reduce'', 4, ''    return functools.reduce'')"
  have u: "?u \<in> set (visited_usage decorated_file)" by code_simp
  have n: "root_name (fst ?u) \<notin> known_aliases decorated_file" by code_simp
  have r: "?r \<in> set (analyze_file decorated_file)" "r_type ?r = ''usage''" "r_alias ?r = ''functools''"
    by code_simp+
  from usage_records_well_formed[of decorated_file] u n r
  have "\<not> (\<exists>r\<in>set (analyze_file decorated_file). r_type r = ''usage'' \<and> r_symbol r = fst ?u)"
    and "r_alias ?r \<in> known_aliases decorated_file" by blast+
  with u n r show ?thesis by (simp add: root_name_def)
qed

subsection \<open>The pandas example\<close>

lemma py_index_in_range:
  "1 \<le> l \<Longrightarrow> l \<le> int (length xs) \<Longrightarrow> py_index xs (l - 1) = Inr (xs ! nat (l - 1))"
  by (simp add: py_index_def Let_def)

text \<open>
  The claim C3 as stated expects exactly two usage records.  The call is recorded by
  \<open>visit_Call\<close> and its callee again by \<open>visit_Attribute\<close>, so there are three.
\<close>

theorem pandas_example_three_usages:
  "analyze_file pandas_file =
     [\<lparr>r_file = ''load.py'', r_type = ''import'', r_symbol = ''pandas'', r_alias = ''pd'',
        r_lineno = 1, r_code = ''import pandas as pd''\<rparr>,
      \<lparr>r_file = ''load.py'', r_type = ''usage'', r_symbol = ''pd.read_csv'', r_alias = ''pd'',
        r_lineno = 2, r_code = ''pd.read_csv(1)''\<rparr>,
      \<lparr>r_file = ''load.py'', r_type = ''usage'', r_symbol = ''pd.read_csv'', r_alias = ''pd'',
        r_lineno = 2, r_code = ''pd.read_csv(1)''\<rparr>,
      \<lparr>r_file = ''load.py'', r_type = ''usage'', r_symbol = ''pd.DataFrame'', r_alias = ''pd'',
        r_lineno = 3, r_code = ''pd.DataFrame''\<rparr>] \<and>
   length (filter (\<lambda>r. r_type r = ''usage'') (analyze_file pandas_file)) \<noteq> 2"
  by code_simp

lemma pandas_visit:
  assumes "1 \<le> l1" "l1 \<le> int (length src)" "1 \<le> l2" "l2 \<le> int (length src)"
    "1 \<le> l3" "l3 \<le> int (length src)" "15 \<le> r"
  shows "visit r src (pandas_tree l1 l2 l3) \<lparr>import_entries = [], usage = []\<rparr> =
     Inr \<lparr>import_entries = [\<lparr>imp_module = ''pandas'', imp_alias = ''pd'', imp_lineno = l1,
                                 imp_code = src ! nat (l1 - 1)\<rparr>],
          usage = [(''pd.read_csv'', l2, src ! nat (l2 - 1)), (''pd.read_csv'', l2, src ! nat (l2 - 1)),
                   (''pd.DataFrame'', l3, src ! nat (l3 - 1))]\<rparr>"
  using assms
  by (simp add: pandas_tree_def add_usage_def py_index_in_range asname_or_name_def) arith

text \<open>
  Claim C3, amended.  For a source file with \<open>import pandas as pd\<close> on line \<open>l1\<close>, the call
  \<open>pd.read_csv(...)\<close> on line \<open>l2\<close> and the bare attribute access \<open>pd.DataFrame\<close> on line
  \<open>l3\<close>, the scanner emits exactly one import record (alias \<open>pd\<close>, symbol \<open>pandas\<close>)
  immediately followed by exactly three usage records: two for \<open>pd.read_csv\<close> (the call and
  its callee) and one for \<open>pd.DataFrame\<close>, each with the line number and the text of the
  line of its expression.  The walk of this tree nests 15 frames; the interpreter must be
  able to push them.
\<close>

theorem pandas_example:
  assumes "1 \<le> l1" "l1 \<le> int (length src)" "1 \<le> l2" "l2 \<le> int (length src)"
    "1 \<le> l3" "l3 \<le> int (length src)" "15 \<le> r"
  shows "analyze_file \<lparr>src_name = name, src_path = path, parsed = Inr (src, pandas_tree l1 l2 l3),
                       stack = r\<rparr> =
     [\<lparr>r_file = path, r_type = ''import'', r_symbol = ''pandas'', r_alias = ''pd'',
        r_lineno = l1, r_code = src ! nat (l1 - 1)\<rparr>,
      \<lparr>r_file = path, r_type = ''usage'', r_symbol = ''pd.read_csv'', r_alias = ''pd'',
        r_lineno = l2, r_code = src ! nat (l2 - 1)\<rparr>,
      \<lparr>r_file = path, r_type = ''usage'', r_symbol = ''pd.read_csv'', r_alias = ''pd'',
        r_lineno = l2, r_code = src ! nat (l2 - 1)\<rparr>,
      \<lparr>r_file = path, r_type = ''usage'', r_symbol = ''pd.DataFrame'', r_alias = ''pd'',
        r_lineno = l3, r_code = src ! nat (l3 - 1)\<rparr>]"
  by (simp add: analyze_file_def pandas_visit[OF assms] emit_blocks import_map_of_def block_def
      import_result_def usage_result_def root_name_def)

theorem pandas_example_witness:
  "(1::int) \<le> 1 \<and> (1::int) \<le> int (length [''import pandas as pd'', ''pd.read_csv(1)'', ''pd.DataFrame'']) \<and>
   (15::nat) \<le> 900 \<and>
   analyze_file pandas_file =
     [\<lparr>r_file = ''load.py'', r_type = ''import'', r_symbol = ''pandas'', r_alias = ''pd'',
        r_lineno = 1, r_code = ''import pandas as pd''\<rparr>,
      \<lparr>r_file = ''load.py'', r_type = ''usage'', r_symbol = ''pd.read_csv'', r_alias = ''pd'',
        r_lineno = 2, r_code = ''pd.read_csv(1)''\<rparr>,
      \<lparr>r_file = ''load.py'', r_type = ''usage'', r_symbol = ''pd.read_csv'', r_alias = ''pd'',
        r_lineno = 2, r_code = ''pd.read_csv(1)''\<rparr>,
      \<lparr>r_file = ''load.py'', r_type = ''usage'', r_symbol = ''pd.DataFrame'', r_alias = ''pd'',
        r_lineno = 3, r_code = ''pd.DataFrame''\<rparr>]"
  using pandas_example[of 1 "[''import pandas as pd'', ''pd.read_csv(1)'', ''pd.DataFrame'']" 2 3
      900 "''load.py''" "''load.py''"]
  by (simp add: pandas_file_def)

subsection \<open>The walk as a function of the tree\<close>

lemma add_usage_effect:
  "add_usage src nm l v = Inr v' \<Longrightarrow>
     v' = v\<lparr>usage := usage v @ [(nm, l, line_text src l)]\<rparr>"
  by (auto simp: add_usage_def line_text_def split: sum.splits)

lemma import_loop_effect:
  "import_loop full src l names v = Inr v' \<Longrightarrow>
     v' = v\<lparr>import_entries := import_entries v @
            map (entry_of src) (map (\<lambda>a. (full (fst a), asname_or_name a, l)) names)\<rparr>"
proof (induction names arbitrary: v)
  case Nil
  then show ?case by simp
next
  case (Cons a names)
  from Cons.prems obtain c where c: "py_index src (l - 1) = Inr c"
    and rec: "import_loop full src l names
       (v\<lparr>import_entries := import_entries v @
           [\<lparr>imp_module = full (fst a), imp_alias = asname_or_name a, imp_lineno = l, imp_code = c\<rparr>]\<rparr>) = Inr v'"
    by (auto split: sum.splits)
  from Cons.IH[OF rec] c show ?case by (simp add: entry_of_def line_text_def)
qed

lemma visit_effect:
  "visit r src n v = Inr v' \<Longrightarrow>
     v' = v\<lparr>import_entries := import_entries v @ map (entry_of src) (imported_names n),
           usage := usage v @ recorded src n\<rparr>"
  "generic_visit r src ns v = Inr v' \<Longrightarrow>
     v' = v\<lparr>import_entries := import_entries v @ map (entry_of src) (imported_names_list ns),
           usage := usage v @ recorded_list src ns\<rparr>"
proof (induction r src n v and r src ns v arbitrary: v' and v' rule: visit_generic_visit.induct)
  case (1 r source_lines lineno names v)
  then show ?case by (auto dest!: import_loop_effect split: if_splits sum.splits)
next
  case (2 r source_lines lineno module names v)
  then show ?case by (auto dest!: import_loop_effect split: if_splits sum.splits)
next
  case (3 r source_lines lineno func args kws v)
  let ?pre = "if get_full_attribute_name func \<noteq> []
            then add_usage source_lines (get_full_attribute_name func) lineno v else Inr v"
  from "3.prems" have r: "\<not> (r < 2 \<or> r - 2 < name_calls func)" "\<not> r < 4"
    by (auto split: if_splits sum.splits)
  from "3.prems" r obtain v1 v2 v3 where
    s1: "?pre = Inr v1" and s2: "visit (r - 3) source_lines func v1 = Inr v2" and
    s3: "generic_visit (r - 3) source_lines args v2 = Inr v3" and
    s4: "generic_visit (r - 3) source_lines kws v3 = Inr v'"
    by (auto split: sum.splits if_splits)
  have e1: "v1 = v\<lparr>usage := usage v @
      (if get_full_attribute_name func \<noteq> []
       then [(get_full_attribute_name func, lineno, line_text source_lines lineno)] else [])\<rparr>"
    using s1 by (auto dest!: add_usage_effect split: if_splits)
  note e2 = "3.IH"(1)[OF r(1) s1 r(2) s2]
  note e3 = "3.IH"(2)[OF r(1) s1 r(2) s2 s3]
  note e4 = "3.IH"(3)[OF r(1) s1 r(2) s2 s3 s4]
  show ?case by (simp add: e4 e3 e2 e1)
next
  case (4 r source_lines lineno val attr v)
  let ?pre = "if is_Name (attribute_root (Attribute lineno val attr))
      then (if r - 2 < name_calls (Attribute lineno val attr) then Inl recursion_error
            else add_usage source_lines (get_full_attribute_name (Attribute lineno val attr)) lineno v)
      else Inr v"
  from "4.prems" have r: "\<not> r < 2" "\<not> r < 4"
    by (auto split: if_splits sum.splits)
  from "4.prems" r obtain v1 where s1: "?pre = Inr v1"
    and s2: "visit (r - 3) source_lines val v1 = Inr v'"
    by (auto split: sum.splits if_splits)
  have e1: "v1 = v\<lparr>usage := usage v @
      (if is_Name (attribute_root (Attribute lineno val attr))
       then [(get_full_attribute_name (Attribute lineno val attr), lineno, line_text source_lines lineno)]
       else [])\<rparr>"
    using s1 by (auto dest!: add_usage_effect split: if_splits)
  note e2 = "4.IH"[OF r(1) s1 r(2) s2]
  show ?case by (simp add: e2 e1)
next
  case (5 r source_lines ident v)
  then show ?case by (simp split: if_splits)
next
  case (6 r source_lines v)
  then show ?case by (simp split: if_splits)
next
  case (7 r source_lines children v)
  then show ?case by (simp split: if_splits)
next
  case (8 r source_lines v)
  then show ?case by simp
next
  case (9 r source_lines child children v)
  from "9.prems" obtain v1 where s1: "visit r source_lines child v = Inr v1"
    and s2: "generic_visit r source_lines children v1 = Inr v'"
    by (auto split: sum.splits)
  note e1 = "9.IH"(1)[OF s1]
  note e2 = "9.IH"(2)[OF s1 s2]
  show ?case by (simp add: e2 e1)
qed

lemma visited_effect:
  assumes "parsed f = Inr (src, tree)" "visited f = Inr v"
  shows "import_entries v = map (entry_of src) (imported_names tree)" "usage v = recorded src tree"
  using assms visit_effect(1)[of "stack f" src tree "\<lparr>import_entries = [], usage = []\<rparr>" v]
  by (simp_all add: visited_def)

subsection \<open>Imports without usages\<close>

lemma update_fresh: "k \<notin> fst ` set al \<Longrightarrow> AList.update k v al = al @ [(k, v)]"
  by (induction al) auto

lemma import_map_distinct_aliases:
  "distinct (map imp_alias imps) \<Longrightarrow> import_map_of imps = map (\<lambda>e. (imp_alias e, e)) imps"
proof (induction imps rule: rev_induct)
  case Nil
  then show ?case by (simp add: import_map_of_def)
next
  case (snoc x xs)
  then have IH: "import_map_of xs = map (\<lambda>e. (imp_alias e, e)) xs" by simp
  from snoc.prems have "imp_alias x \<notin> fst ` set (import_map_of xs)"
    by (simp add: import_map_keys)
  then have "AList.update (imp_alias x) x (import_map_of xs) = import_map_of xs @ [(imp_alias x, x)]"
    by (rule update_fresh)
  then show ?case by (simp add: import_map_of_def IH[unfolded import_map_of_def])
qed

text \<open>
  The claim C5 as stated counts one import record per import statement.  Two import
  statements that bind the same alias give one record, that of the later statement.
\<close>

theorem rebound_alias_one_record:
  "parsed rebound_file =
     Inr ([''import json'', ''import simplejson as json''],
          Other [Import 1 [(''json'', None)], Import 2 [(''simplejson'', Some ''json'')]]) \<and>
   visited_usage rebound_file = [] \<and>
   analyze_file rebound_file =
     [\<lparr>r_file = ''compat.py'', r_type = ''import'', r_symbol = ''simplejson'', r_alias = ''json'',
        r_lineno = 2, r_code = ''import simplejson as json''\<rparr>] \<and>
   length (filter (\<lambda>r. r_type r = ''import'') (analyze_file rebound_file)) \<noteq> 2"
  by code_simp

text \<open>
  Claim C5, amended.  For any source file that parses and whose walk raises no exception,
  whose import statements bind pairwise distinct aliases and in which no recorded
  expression is rooted at an imported alias, the scanner emits exactly one import record
  per imported name (N records for N import statements of one name each) and no usage
  record, in the order of the import statements.
\<close>

theorem imports_without_usage:
  assumes "parsed f = Inr (src, tree)" and "visited f = Inr v"
    and "distinct (map (\<lambda>n. fst (snd n)) (imported_names tree))"
    and "\<forall>u\<in>set (visited_usage f). root_name (fst u) \<notin> known_aliases f"
  shows "analyze_file f =
           map (\<lambda>n. \<lparr>r_file = src_path f, r_type = ''import'', r_symbol = fst n,
                      r_alias = fst (snd n), r_lineno = snd (snd n),
                      r_code = line_text src (snd (snd n))\<rparr>) (imported_names tree) \<and>
         length (filter (\<lambda>r. r_type r = ''import'') (analyze_file f)) = length (imported_names tree) \<and>
         filter (\<lambda>r. r_type r = ''usage'') (analyze_file f) = []"
proof -
  let ?rec = "\<lambda>n. \<lparr>r_file = src_path f, r_type = ''import'', r_symbol = fst n,
                      r_alias = fst (snd n), r_lineno = snd (snd n),
                      r_code = line_text src (snd (snd n))\<rparr>"
  note eff = visited_effect[OF assms(1,2)]
  have al: "map imp_alias (import_entries v) = map (\<lambda>n. fst (snd n)) (imported_names tree)"
    by (simp add: eff(1) entry_of_def comp_def)
  with assms(3) have d: "distinct (map imp_alias (import_entries v))" by simp
  have im: "import_map_of (import_entries v) = map (\<lambda>e. (imp_alias e, e)) (import_entries v)"
    using d by (rule import_map_distinct_aliases)
  have nou: "filter (\<lambda>u. root_name (fst u) = imp_alias e) (usage v) = []"
    if "e \<in> set (import_entries v)" for e
  proof -
    from that have "imp_alias e \<in> known_aliases f" by (simp add: known_aliases_def assms(2))
    with assms(4) show ?thesis
      by (auto simp: filter_empty_conv visited_usage_def assms(2))
  qed
  have "analyze_file f = concat (map (block (src_path f) (usage v)) (import_map_of (import_entries v)))"
    using assms(2) by (simp add: analyze_file_visited emit_blocks)
  also have "\<dots> = concat (map (\<lambda>e. [import_result (src_path f) (imp_alias e) e]) (import_entries v))"
    unfolding im map_map comp_def
    by (rule arg_cong[where f=concat], rule map_cong) (simp_all add: block_def nou)
  also have "\<dots> = map (\<lambda>e. import_result (src_path f) (imp_alias e) e) (import_entries v)"
    by (induction "import_entries v") (simp_all add: concat_map_singleton)
  also have "\<dots> = map ?rec (imported_names tree)"
    by (simp add: eff(1) import_result_def entry_of_def comp_def)
  finally have eq: "analyze_file f = map ?rec (imported_names tree)" .
  show ?thesis unfolding eq by (simp add: filter_empty_conv comp_def)
qed

theorem imports_without_usage_witness:
  "distinct (map (\<lambda>n. fst (snd n))
     (imported_names (Other [Import 1 [(''os'', None)], ImportFrom 2 (Some ''sys'') [(''path'', Some ''p'')]]))) \<and>
   visited_usage imports_only_file = [] \<and>
   analyze_file imports_only_file =
     [\<lparr>r_file = ''setup.py'', r_type = ''import'', r_symbol = ''os'', r_alias = ''os'',
        r_lineno = 1, r_code = ''import os''\<rparr>,
      \<lparr>r_file = ''setup.py'', r_type = ''import'', r_symbol = ''sys.path'', r_alias = ''p'',
        r_lineno = 2, r_code = ''from sys import path as p''\<rparr>] \<and>
   length (filter (\<lambda>r. r_type r = ''import'') (analyze_file imports_only_file)) = 2 \<and>
   filter (\<lambda>r. r_type r = ''usage'') (analyze_file imports_only_file) = []"
proof -
  let ?src = "[''import os'', ''from sys import path as p'']"
  let ?tree = "Other [Import 1 [(''os'', None)], ImportFrom 2 (Some ''sys'') [(''path'', Some ''p'')]]"
  let ?v = "\<lparr>import_entries = [\<lparr>imp_module = ''os'', imp_alias = ''os'', imp_lineno = 1, imp_code = ''import os''\<rparr>,
       \<lparr>imp_module = ''sys.path'', imp_alias = ''p'', imp_lineno = 2, imp_code = ''from sys import path as p''\<rparr>],
     usage = []\<rparr>"
  have p: "parsed imports_only_file = Inr (?src, ?tree)" by (simp add: imports_only_file_def)
  have v: "visited imports_only_file = Inr ?v" by code_simp
  have d: "distinct (map (\<lambda>n. fst (snd n)) (imported_names ?tree))" by code_simp
  have u: "visited_usage imports_only_file = []" by (simp add: visited_usage_def v)
  then have n: "\<forall>u\<in>set (visited_usage imports_only_file). root_name (fst u) \<notin> known_aliases imports_only_file"
    by simp
  have l: "line_text ?src 1 = ''import os''" "line_text ?src 2 = ''from sys import path as p''"
    by code_simp+
  from imports_without_usage[OF p v d n] d u l show ?thesis
    by (simp add: imports_only_file_def asname_or_name_def from_name_def)
qed

subsection \<open>A call on an attribute chain is recorded twice\<close>

lemma recorded_sublist:
  "c \<in> set (nodes_of n) \<Longrightarrow> \<exists>p q. recorded src n = p @ recorded src c @ q"
  "c \<in> set (nodes_of_list ns) \<Longrightarrow> \<exists>p q. recorded_list src ns = p @ recorded src c @ q"
proof (induction n and ns rule: nodes_of_nodes_of_list.induct)
  case (1 lineno names)
  then show ?case by simp
next
  case (2 lineno module names)
  then show ?case by simp
next
  case (3 lineno func args kws)
  let ?h = "if get_full_attribute_name func \<noteq> []
      then [(get_full_attribute_name func, lineno, line_text src lineno)] else []"
  from "3.prems" consider "c = Call lineno func args kws" | "c \<in> set (nodes_of func)"
    | "c \<in> set (nodes_of_list args)" | "c \<in> set (nodes_of_list kws)" by auto
  then show ?case
  proof cases
    case 1
    then show ?thesis by (metis append_Nil append_Nil2)
  next
    case 2
    from "3.IH"(1)[OF 2] obtain p q where "recorded src func = p @ recorded src c @ q" by blast
    then have "recorded src (Call lineno func args kws) =
        (?h @ p) @ recorded src c @ (q @ recorded_list src args @ recorded_list src kws)" by simp
    then show ?thesis by blast
  next
    case 3
    from "3.IH"(2)[OF 3] obtain p q where "recorded_list src args = p @ recorded src c @ q" by blast
    then have "recorded src (Call lineno func args kws) =
        (?h @ recorded src func @ p) @ recorded src c @ (q @ recorded_list src kws)" by simp
    then show ?thesis by blast
  next
    case 4
    from "3.IH"(3)[OF 4] obtain p q where "recorded_list src kws = p @ recorded src c @ q" by blast
    then have "recorded src (Call lineno func args kws) =
        (?h @ recorded src func @ recorded_list src args @ p) @ recorded src c @ q" by simp
    then show ?thesis by blast
  qed
next
  case (4 lineno val attr)
  let ?h = "if is_Name (attribute_root (Attribute lineno val attr))
      then [(get_full_attribute_name (Attribute lineno val attr), lineno, line_text src lineno)] else []"
  from "4.prems" consider "c = Attribute lineno val attr" | "c \<in> set (nodes_of val)" by auto
  then show ?case
  proof cases
    case 1
    then show ?thesis by (metis append_Nil append_Nil2)
  next
    case 2
    from "4.IH"[OF 2] obtain p q where "recorded src val = p @ recorded src c @ q" by blast
    then have "recorded src (Attribute lineno val attr) = (?h @ p) @ recorded src c @ q" by simp
    then show ?thesis by blast
  qed
next
  case (5 ident)
  then show ?case by simp
next
  case 6
  then show ?case by simp
next
  case (7 children)
  from "7.prems" consider "c = Other children" | "c \<in> set (nodes_of_list children)" by auto
  then show ?case
  proof cases
    case 1
    then show ?thesis by (metis append_Nil append_Nil2)
  next
    case 2
    from "7.IH"[OF 2] show ?thesis by simp
  qed
next
  case 8
  then show ?case by simp
next
  case (9 child children)
  from "9.prems" consider "c \<in> set (nodes_of child)" | "c \<in> set (nodes_of_list children)" by auto
  then show ?case
  proof cases
    case 1
    from "9.IH"(1)[OF 1] obtain p q where "recorded src child = p @ recorded src c @ q" by blast
    then have "recorded_list src (child # children) = p @ recorded src c @ (q @ recorded_list src children)"
      by simp
    then show ?thesis by blast
  next
    case 2
    from "9.IH"(2)[OF 2] obtain p q where "recorded_list src children = p @ recorded src c @ q" by blast
    then have "recorded_list src (child # children) = (recorded src child @ p) @ recorded src c @ q"
      by simp
    then show ?thesis by blast
  qed
qed

lemma chain_full_name:
  "attribute_root n = Name a \<Longrightarrow>
     \<exists>rest. get_full_attribute_name n = a @ rest \<and> (rest = [] \<or> hd rest = CHR ''.'')"
proof (induction n rule: attribute_root.induct)
  case (1 lineno v attr)
  then obtain rest where r: "get_full_attribute_name v = a @ rest" "rest = [] \<or> hd rest = CHR ''.''"
    by auto
  have "get_full_attribute_name (Attribute lineno v attr) = a @ (rest @ ''.'' @ attr)"
    using r(1) by simp
  moreover have "hd (rest @ ''.'' @ attr) = CHR ''.''" using r(2) by (cases rest) auto
  ultimately show ?case by blast
qed auto

lemma root_of_chain:
  assumes "attribute_root n = Name a" "CHR ''.'' \<notin> set a"
  shows "root_name (get_full_attribute_name n) = a"
proof -
  from chain_full_name[OF assms(1)] obtain rest where
    r: "get_full_attribute_name n = a @ rest" "rest = [] \<or> hd rest = CHR ''.''" by blast
  have "takeWhile (\<lambda>c. c \<noteq> CHR ''.'') (a @ rest) = a"
    using assms(2) r(2) by (intro takeWhile_block) auto
  then show ?thesis by (simp add: root_name_def r(1))
qed

lemma recorded_call_on_chain:
  assumes "attribute_root (Attribute lf val attr) = Name a"
  shows "\<exists>q. recorded src (Call l (Attribute lf val attr) args kws) =
     [(get_full_attribute_name (Attribute lf val attr), l, line_text src l),
      (get_full_attribute_name (Attribute lf val attr), lf, line_text src lf)] @ q"
  using assms by simp

lemma blocks_split:
  assumes "g \<in> set gs"
  shows "\<exists>pre post. concat (map (block path us) gs) = pre @ block path us g @ post"
proof -
  from assms obtain g1 g2 where "gs = g1 @ g # g2" by (auto simp: in_set_conv_decomp)
  then have "concat (map (block path us) gs) =
     concat (map (block path us) g1) @ block path us g @ concat (map (block path us) g2)" by simp
  then show ?thesis by blast
qed

text \<open>
  Claim C4, amended.  In a file that parses and whose walk raises no exception, for every
  call expression whose callee is a dotted attribute chain rooted at an imported alias,
  the stream of the file holds two usage records for that site next to each other: the
  one of \<open>visit_Call\<close>, with the line of the call, and the one of \<open>visit_Attribute\<close>, with
  the line of the callee; both stay in the output.  (The root is an identifier, so it has
  no dot.)
\<close>

theorem call_on_attribute_chain_recorded_twice:
  assumes "parsed f = Inr (src, tree)" and "visited f = Inr v"
    and "Call l (Attribute lf val attr) args kws \<in> set (nodes_of tree)"
    and "attribute_root (Attribute lf val attr) = Name a"
    and "a \<in> known_aliases f" and "CHR ''.'' \<notin> set a"
  shows "\<exists>pre post. analyze_file f =
     pre @
     [usage_result (src_path f) a (get_full_attribute_name (Attribute lf val attr), l, line_text src l),
      usage_result (src_path f) a (get_full_attribute_name (Attribute lf val attr), lf, line_text src lf)] @
     post"
proof -
  let ?nm = "get_full_attribute_name (Attribute lf val attr)"
  let ?u1 = "(?nm, l, line_text src l)" and ?u2 = "(?nm, lf, line_text src lf)"
  let ?P = "\<lambda>u::string \<times> int \<times> string. root_name (fst u) = a"
  note eff = visited_effect[OF assms(1,2)]
  from recorded_sublist(1)[OF assms(3), of src] recorded_call_on_chain[OF assms(4), of src l args kws]
  obtain p q where us: "usage v = p @ [?u1, ?u2] @ q"
    unfolding eff(2) by (metis append.assoc)
  have root: "root_name ?nm = a" using assms(4,6) by (rule root_of_chain)
  have fl: "filter ?P (usage v) = filter ?P p @ [?u1, ?u2] @ filter ?P q"
    using root by (simp add: us)
  from assms(5) have "a \<in> fst ` set (import_map_of (import_entries v))"
    by (simp add: known_aliases_def assms(2) import_map_keys)
  then obtain imp where g: "(a, imp) \<in> set (import_map_of (import_entries v))"
    by force
  from blocks_split[OF g, of "src_path f" "usage v"] obtain pre post where
    "analyze_file f = pre @ block (src_path f) (usage v) (a, imp) @ post"
    using assms(2) by (auto simp: analyze_file_visited emit_blocks)
  then have "analyze_file f =
      (pre @ import_result (src_path f) a imp # map (usage_result (src_path f) a) (filter ?P p)) @
      [usage_result (src_path f) a ?u1, usage_result (src_path f) a ?u2] @
      (map (usage_result (src_path f) a) (filter ?P q) @ post)"
    by (simp add: block_def fl)
  then show ?thesis by blast
qed

theorem call_on_attribute_chain_recorded_twice_witness:
  "Call 2 (Attribute 2 (Name ''pd'') ''read_csv'') [Constant] [] \<in> set (nodes_of (pandas_tree 1 2 3)) \<and>
   attribute_root (Attribute 2 (Name ''pd'') ''read_csv'') = Name ''pd'' \<and>
   ''pd'' \<in> known_aliases pandas_file \<and> CHR ''.'' \<notin> set ''pd'' \<and>
   (\<exists>pre post. analyze_file pandas_file =
      pre @
      [usage_result ''load.py'' ''pd'' (''pd.read_csv'', 2, ''pd.read_csv(1)''),
       usage_result ''load.py'' ''pd'' (''pd.read_csv'', 2, ''pd.read_csv(1)'')] @
      post)"
proof -
  let ?src = "[''import pandas as pd'', ''pd.read_csv(1)'', ''pd.DataFrame'']"
  let ?v = "\<lparr>import_entries = [\<lparr>imp_module = ''pandas'', imp_alias = ''pd'', imp_lineno = 1,
                                 imp_code = ''import pandas as pd''\<rparr>],
          usage = [(''pd.read_csv'', 2, ''pd.read_csv(1)''), (''pd.read_csv'', 2, ''pd.read_csv(1)''),
                   (''pd.DataFrame'', 3, ''pd.DataFrame'')]\<rparr>"
  have p: "parsed pandas_file = Inr (?src, pandas_tree 1 2 3)" by (simp add: pandas_file_def)
  have v: "visited pandas_file = Inr ?v" by code_simp
  have c: "Call 2 (Attribute 2 (Name ''pd'') ''read_csv'') [Constant] [] \<in> set (nodes_of (pandas_tree 1 2 3))"
    by (simp add: pandas_tree_def)
  have r: "attribute_root (Attribute 2 (Name ''pd'') ''read_csv'') = Name ''pd''" by simp
  have k: "''pd'' \<in> known_aliases pandas_file" by (simp add: known_aliases_def v)
  have d: "CHR ''.'' \<notin> set ''pd''" by simp
  have l: "line_text ?src 2 = ''pd.read_csv(1)''" by code_simp
  from call_on_attribute_chain_recorded_twice[OF p v c r k d] c r k d l show ?thesis
    by (simp add: pandas_file_def)
qed

subsection \<open>A walk that exceeds the recursion limit\<close>

lemma sum_of_overflow:
  "r < 2 * n + 4 \<Longrightarrow> visit r src (sum_of n) v = Inl recursion_error"
proof (induction n arbitrary: r v)
  case 0
  then show ?case by simp
next
  case (Suc n)
  show ?case
  proof (cases "r < 3")
    case True
    then show ?thesis by simp
  next
    case False
    with Suc.prems have "r - 2 < 2 * n + 4" by arith
    then have "visit (r - 2) src (sum_of n) v = Inl recursion_error" by (rule Suc.IH)
    with False show ?thesis by simp
  qed
qed

lemma long_sum_walk:
  "visit 1000 [''import os'', ''os.path.join(1)'', long_sum_line] long_sum_tree
     \<lparr>import_entries = [], usage = []\<rparr> = Inl recursion_error"
proof -
  have "visit 996 src (sum_of 600) v = Inl recursion_error" for src v
    by (rule sum_of_overflow) simp
  then show ?thesis
    by (simp add: long_sum_tree_def add_usage_def py_index_def asname_or_name_def)
qed

text \<open>
  The claim C4 as stated holds of every call on a chain rooted at an imported alias.  In
  this file \<open>os\<close> is imported and \<open>os.path.join\<close> is called, but the walk of the long sum
  on line 3 exceeds the recursion limit, and the file gives its error record alone.
\<close>

theorem deep_tree_gives_error_record_only:
  "Call 2 (Attribute 2 (Attribute 2 (Name ''os'') ''path'') ''join'') [Constant] []
     \<in> set (nodes_of long_sum_tree) \<and>
   (''os'', ''os'', 1) \<in> set (imported_names long_sum_tree) \<and>
   analyze_file long_sum_file =
     [\<lparr>r_file = ''totals.py'', r_type = ''error'',
       r_symbol = ''maximum recursion depth exceeded'', r_alias = [], r_lineno = - 1,
       r_code = []\<rparr>]"
proof -
  have "Call 2 (Attribute 2 (Attribute 2 (Name ''os'') ''path'') ''join'') [Constant] []
     \<in> set (nodes_of long_sum_tree)"
    by (simp add: long_sum_tree_def)
  moreover have "(''os'', ''os'', 1) \<in> set (imported_names long_sum_tree)"
    by (simp add: long_sum_tree_def asname_or_name_def)
  moreover have "analyze_file long_sum_file =
     [\<lparr>r_file = ''totals.py'', r_type = ''error'',
       r_symbol = ''maximum recursion depth exceeded'', r_alias = [], r_lineno = - 1,
       r_code = []\<rparr>]"
    by (simp add: analyze_file_def long_sum_file_def long_sum_walk error_result_def
        recursion_error_def)
  ultimately show ?thesis by blast
qed

section \<open>Properties of the manifest extractor\<close>

subsection \<open>Environment files\<close>

lemma pip_loop_strings:
  "list_all is_YStr ps \<Longrightarrow>
     pip_loop env_file ps = (map (\<lambda>s. (env_file, split_dependency s)) (string_items ps), False)"
  by (induction env_file ps rule: pip_loop.induct) auto

lemma dep_loop_rows:
  "list_all conda_entry_ok ds \<Longrightarrow>
     dep_loop env_file ds = (concat (map (conda_entry_rows env_file) ds), False)"
proof (induction env_file ds rule: dep_loop.induct)
  case (3 env_file dep rest)
  show ?case
  proof (cases "map_of dep (YStr ''pip'')")
    case None
    with 3 show ?thesis by simp
  next
    case (Some pip)
    with "3.prems" obtain pip_deps where p: "pip = YList pip_deps" "list_all is_YStr pip_deps"
      by (cases pip) auto
    have pl: "pip_loop env_file pip_deps =
        (map (\<lambda>s. (env_file, split_dependency s)) (string_items pip_deps), False)"
      using p(2) by (rule pip_loop_strings)
    have it: "iterate pip = Some pip_deps" by (simp add: p(1))
    have "dep_loop env_file rest = (concat (map (conda_entry_rows env_file) rest), False)"
      using "3.IH"(2)[OF Some it pl[symmetric] refl] "3.prems" by simp
    with Some p pl show ?thesis by simp
  qed
qed auto

lemma python_rows_strings:
  "python_rows env_file items =
     map (\<lambda>s. (env_file, ''python'', snd (split_dependency s)))
       (filter (\<lambda>s. startswith s ''python'') (string_items items))"
  by (induction env_file items rule: python_rows.induct) auto

text \<open>
  The claim C8 as stated gives a string entry that starts with \<open>python\<close> the synthetic row
  alone.  The second loop of \<open>get_conda_dependencies\<close> runs over every string entry, so such
  an entry gives two rows.
\<close>

theorem conda_python_entry_two_rows:
  "get_conda_dependencies conda_project ''proj/environment.yml'' =
     [(''proj/environment.yml'', ''python'', ''latest''),
      (''proj/environment.yml'', ''python'', ''latest''),
      (''proj/environment.yml'', ''numpy'', ''>=1.26''),
      (''proj/environment.yml'', ''requests'', ''==2.31.0'')] \<and>
   concat (map (claimed_conda_entry_rows ''proj/environment.yml'')
     [YStr ''python=3.9'', YStr ''numpy>=1.26'',
      YDict [(YStr ''pip'', YList [YStr ''requests==2.31.0''])]]) =
     [(''proj/environment.yml'', ''python'', ''latest''),
      (''proj/environment.yml'', ''numpy'', ''>=1.26''),
      (''proj/environment.yml'', ''requests'', ''==2.31.0'')] \<and>
   get_conda_dependencies conda_project ''proj/environment.yml'' \<noteq>
   concat (map (claimed_conda_entry_rows ''proj/environment.yml'')
     [YStr ''python=3.9'', YStr ''numpy>=1.26'',
      YDict [(YStr ''pip'', YList [YStr ''requests==2.31.0''])]])"
  by code_simp

text \<open>
  Claim C8, amended.  For an environment file whose \<open>dependencies\<close> list holds strings and
  mappings with a \<open>pip\<close> list of strings, the rows are: first, for each string entry that
  starts with \<open>python\<close>, a synthetic row with package \<open>python\<close> and the version the splitter
  finds; then, for each entry in order, the row of the splitter for a string entry (those
  that start with \<open>python\<close> included) and one row of the splitter for each string of a \<open>pip\<close>
  list.
\<close>

theorem conda_rows:
  assumes "yaml_safe_load env env_file = Some (YDict env_data)"
    and "map_of env_data (YStr ''dependencies'') = Some (YList deps)"
    and "list_all conda_entry_ok deps"
  shows "get_conda_dependencies env env_file =
     map (\<lambda>s. (env_file, ''python'', snd (split_dependency s)))
       (filter (\<lambda>s. startswith s ''python'') (string_items deps)) @
     concat (map (conda_entry_rows env_file) deps)"
  using assms
  by (simp add: get_conda_dependencies_def dep_loop_rows python_rows_strings)

theorem conda_rows_witness:
  "yaml_safe_load conda_project ''proj/environment.yml'' = Some conda_document \<and>
   list_all conda_entry_ok
     [YStr ''python=3.9'', YStr ''numpy>=1.26'', YDict [(YStr ''pip'', YList [YStr ''requests==2.31.0''])]] \<and>
   get_conda_dependencies conda_project ''proj/environment.yml'' =
     [(''proj/environment.yml'', ''python'', ''latest''),
      (''proj/environment.yml'', ''python'', ''latest''),
      (''proj/environment.yml'', ''numpy'', ''>=1.26''),
      (''proj/environment.yml'', ''requests'', ''==2.31.0'')]"
proof -
  let ?deps = "[YStr ''python=3.9'', YStr ''numpy>=1.26'', YDict [(YStr ''pip'', YList [YStr ''requests==2.31.0''])]]"
  let ?data = "[(YStr ''name'', YStr ''demo''), (YStr ''dependencies'', YList ?deps)]"
  have l: "yaml_safe_load conda_project ''proj/environment.yml'' = Some (YDict ?data)"
    by (simp add: conda_project_def conda_document_def)
  have d: "map_of ?data (YStr ''dependencies'') = Some (YList ?deps)" by simp
  have k: "list_all conda_entry_ok ?deps" by simp
  have r: "map (\<lambda>s. (''proj/environment.yml'', ''python'', snd (split_dependency s)))
       (filter (\<lambda>s. startswith s ''python'') (string_items ?deps)) @
     concat (map (conda_entry_rows ''proj/environment.yml'') ?deps) =
     [(''proj/environment.yml'', ''python'', ''latest''),
      (''proj/environment.yml'', ''python'', ''latest''),
      (''proj/environment.yml'', ''numpy'', ''>=1.26''),
      (''proj/environment.yml'', ''requests'', ''==2.31.0'')]"
    by code_simp
  from conda_rows[OF l d k] r l k show ?thesis by (simp add: conda_document_def)
qed

subsection \<open>Manifest files read in part\<close>

text \<open>
  Claim C6 has a manifest file that fails contribute nothing.  In this project the loop
  over the environment file raises at its second entry and the iteration over the
  requirements file raises after its first line; the rows appended before the exception
  stay in the result.  A requirements file that cannot be opened, as in the other project,
  gives no row.
\<close>

theorem partly_read_manifests_keep_rows:
  "yaml_safe_load malformed_project ''proj/environment.yml'' = Some malformed_document \<and>
   snd (dep_loop ''proj/environment.yml''
          [YStr ''numpy'', YDict [(YStr ''pip'', YScalar)], YStr ''scipy'']) = True \<and>
   get_conda_dependencies malformed_project ''proj/environment.yml'' =
     [(''proj/environment.yml'', ''numpy'', ''latest'')] \<and>
   read_lines malformed_project ''proj/requirements.txt'' =
     Some ([''flask==2.0.1'' @ [CHR 0x0A]], False) \<and>
   get_pip_dependencies malformed_project ''proj/requirements.txt'' =
     [(''proj/requirements.txt'', ''flask'', ''==2.0.1'')] \<and>
   manifest_dependencies malformed_project =
     [(''proj/environment.yml'', ''numpy'', ''latest''),
      (''proj/requirements.txt'', ''flask'', ''==2.0.1'')] \<and>
   read_lines conda_project ''proj/requirements.txt'' = None \<and>
   get_pip_dependencies conda_project ''proj/requirements.txt'' = []"
  by code_simp

subsection \<open>A tree with nothing to analyze\<close>

text \<open>
  Claim C7 has the operation report an error when the tree holds no manifest file and no
  source file.  On an empty project directory \<open>generate_ast_usage_pdf\<close> returns its error
  string, but \<open>extract_project_dependencies\<close> succeeds: it writes a CSV file with no row
  under the header and returns its usual message.
\<close>

theorem empty_project_extraction_succeeds:
  "os_walk empty_project = [] \<and>
   generate_ast_usage_pdf True [] (\<lambda>results. Inr True) ''proj'' =
     ErrorReply ''No Python files or analysis results found in the project path.'' \<and>
   extract_project_dependencies empty_project ''proj'' =
     Some \<lparr>manifest_rows = [], inferred_rows = {},
           returned = ''Dependencies extracted and saved to proj/all_dependencies_with_paths.csv''\<rparr>"
  by (simp add: empty_project_def extract_project_dependencies_def manifest_dependencies_def
      find_all_files_def extract_python_file_dependencies_def os_path_join_def
      generate_ast_usage_pdf_def analyze_repo_def)

end
